theory Spec2Isabelle
  imports Complex_Main "HOL-Library.Word" "HOL-Library.Multiset"
begin

section \<open>Banana Editor: slots, batch completion, disk reconciliation, sequential naming\<close>

text \<open>
  A shallow embedding of the batch orchestration code of \<^verbatim>\<open>banana_editor_standalone.py\<close>
  (class \<^verbatim>\<open>BananaEditor\<close>). Widgets, status labels and progress bars are left out; the
  fields the handlers compute with are kept, and the file system and the clock, which the
  code reads through \<^verbatim>\<open>pathlib\<close>, \<^verbatim>\<open>datetime.now()\<close> and \<^verbatim>\<open>time.time()\<close>, are explicit
  arguments.
\<close>

subsection \<open>The editor's fields\<close>

type_synonym bytes = "8 word list"

text \<open>
  \<^verbatim>\<open>completed_workers\<close> is set to 0 and only ever incremented, and \<^verbatim>\<open>total_workers\<close> is
  set to 0 or to the batch count read from the combo box entries 1-img .. 4-img, so both
  are natural numbers. \<^verbatim>\<open>None\<close> is \<open>None\<close>.
\<close>

record editor =
  image_paths :: "string option list"
  selected_image_path :: "string option"
  save_on_original :: bool
  batch_results :: "bytes list"
  completed_workers :: nat
  total_workers :: nat
  results :: "bytes list"

datatype py_error = IndexError

text \<open>Python truthiness of an optional string: neither \<^verbatim>\<open>None\<close> nor empty.\<close>

definition truthy :: "string option \<Rightarrow> bool" where
  "truthy p = (case p of None \<Rightarrow> False | Some x \<Rightarrow> x \<noteq> [])"

subsection \<open>Image slots\<close>

text \<open>\<^verbatim>\<open>[path for path in self.image_paths if path is not None]\<close>\<close>

definition get_active_image_paths :: "editor \<Rightarrow> string list" where
  "get_active_image_paths s = List.map_filter (\<lambda>path. path) (image_paths s)"

definition get_image_count :: "editor \<Rightarrow> nat" where
  "get_image_count s = length (get_active_image_paths s)"

text \<open>
  \<^verbatim>\<open>update_image_info\<close>: besides the label it rewrites the legacy field
  \<^verbatim>\<open>selected_image_path\<close> to the first active path, or to \<^verbatim>\<open>None\<close> when no slot is filled.
\<close>

definition update_image_info :: "editor \<Rightarrow> editor" where
  "update_image_info s =
     (case get_active_image_paths s of
        [] \<Rightarrow> s\<lparr>selected_image_path := None\<rparr>
      | p # _ \<Rightarrow> s\<lparr>selected_image_path := Some p\<rparr>)"

text \<open>
  \<^verbatim>\<open>remove_image_from_slot\<close>: the guard \<^verbatim>\<open>0 <= slot_index < 4\<close>, then an index assignment,
  which raises \<^verbatim>\<open>IndexError\<close> on a list shorter than the index.
\<close>

definition remove_image_from_slot :: "editor \<Rightarrow> int \<Rightarrow> py_error + editor" where
  "remove_image_from_slot s slot_index =
     (if 0 \<le> slot_index \<and> slot_index < 4 then
        (if nat slot_index < length (image_paths s)
         then Inr (update_image_info (s\<lparr>image_paths := (image_paths s)[nat slot_index := None]\<rparr>))
         else Inl IndexError)
      else Inr s)"

text \<open>
  \<^verbatim>\<open>add_image_to_next_available_slot\<close>: the loop \<^verbatim>\<open>for i in range(4)\<close> is the recursion over
  the index list; the first \<^verbatim>\<open>None\<close> slot is written and \<^verbatim>\<open>True\<close> returned.
\<close>

fun add_scan :: "nat list \<Rightarrow> editor \<Rightarrow> string \<Rightarrow> py_error + (editor \<times> bool)" where
  "add_scan [] s image_path = Inr (s, False)"
| "add_scan (i # rest) s image_path =
     (if length (image_paths s) \<le> i then Inl IndexError
      else if image_paths s ! i = None
      then Inr (update_image_info (s\<lparr>image_paths := (image_paths s)[i := Some image_path]\<rparr>), True)
      else add_scan rest s image_path)"

definition add_image_to_next_available_slot ::
  "editor \<Rightarrow> string \<Rightarrow> py_error + (editor \<times> bool)" where
  "add_image_to_next_available_slot s image_path = add_scan [0, 1, 2, 3] s image_path"

subsection \<open>Strings: decimal numbers, file names, glob, stem, split, int\<close>

definition digit_char :: "nat \<Rightarrow> char" where
  "digit_char d = ''0123456789'' ! d"

text \<open>The value of a decimal digit, by its code point (48 to 57).\<close>

definition digit_val :: "char \<Rightarrow> nat option" where
  "digit_val c =
     (let k = (of_char c :: nat) in if 48 \<le> k \<and> k \<le> 57 then Some (k - 48) else None)"

definition is_digit :: "char \<Rightarrow> bool" where
  "is_digit c = (digit_val c \<noteq> None)"

text \<open>\<^verbatim>\<open>str(n)\<close> for a natural number.\<close>

fun dec :: "nat \<Rightarrow> string" where
  "dec n = (if 10 \<le> n then dec (n div 10) @ [digit_char (n mod 10)] else [digit_char n])"

declare dec.simps [simp del]

text \<open>The format \<^verbatim>\<open>{n:03d}\<close>: the sign first, then zeros up to a total width of three.\<close>

definition zfill :: "nat \<Rightarrow> string \<Rightarrow> string" where
  "zfill w ds = replicate (w - length ds) (CHR ''0'') @ ds"

definition fmt03d :: "int \<Rightarrow> string" where
  "fmt03d n = (if n < 0 then CHR ''-'' # zfill 2 (dec (nat (- n))) else zfill 3 (dec (nat n)))"

text \<open>
  The date bucket \<^verbatim>\<open>f"{now.day}{now.strftime('%b').lower()}"\<close>, with the month
  abbreviations of the C locale.
\<close>

datatype month = Jan | Feb | Mar | Apr | May | Jun | Jul | Aug | Sep | Oct | Nov | Dec

fun month_abbr :: "month \<Rightarrow> string" where
  "month_abbr Jan = ''jan''" | "month_abbr Feb = ''feb''" | "month_abbr Mar = ''mar''"
| "month_abbr Apr = ''apr''" | "month_abbr May = ''may''" | "month_abbr Jun = ''jun''"
| "month_abbr Jul = ''jul''" | "month_abbr Aug = ''aug''" | "month_abbr Sep = ''sep''"
| "month_abbr Oct = ''oct''" | "month_abbr Nov = ''nov''" | "month_abbr Dec = ''dec''"

definition date_str_of :: "nat \<Rightarrow> month \<Rightarrow> string" where
  "date_str_of d m = dec d @ month_abbr m"

text \<open>\<^verbatim>\<open>f"banana_{date_str}_{n:03d}.png"\<close>\<close>

definition file_name :: "string \<Rightarrow> int \<Rightarrow> string" where
  "file_name date_str n = ''banana_'' @ date_str @ ''_'' @ fmt03d n @ ''.png''"

text \<open>
  The glob pattern \<^verbatim>\<open>f"banana_{date_str}_*.png"\<close>. A date bucket holds digits and lower
  case letters only, so the star is the pattern's one metacharacter, and a name matches
  when it starts with the part before the star, ends with the part after it, and the two
  do not overlap. Names are compared byte by byte.
\<close>

definition glob_match :: "string \<Rightarrow> string \<Rightarrow> bool" where
  "glob_match date_str nm =
     (let pre = ''banana_'' @ date_str @ ''_'' in
      length pre + 4 \<le> length nm \<and> take (length pre) nm = pre
      \<and> drop (length nm - 4) nm = ''.png'')"

text \<open>
  \<^verbatim>\<open>Path.stem\<close>: the name without its last suffix; the suffix starts at the last dot when
  that dot is neither the first nor the last character.
\<close>

definition rfind :: "char \<Rightarrow> string \<Rightarrow> nat option" where
  "rfind c nm =
     (if c \<in> set nm then Some (length nm - 1 - length (takeWhile (\<lambda>x. x \<noteq> c) (rev nm)))
      else None)"

definition stem :: "string \<Rightarrow> string" where
  "stem nm =
     (case rfind (CHR ''.'') nm of
        None \<Rightarrow> nm
      | Some i \<Rightarrow> if 0 < i \<and> i < length nm - 1 then take i nm else nm)"

text \<open>\<^verbatim>\<open>str.split(c)\<close>: every occurrence of the separator cuts, empty fields are kept.\<close>

fun split_on :: "char \<Rightarrow> string \<Rightarrow> string list" where
  "split_on c [] = [[]]"
| "split_on c (x # xs) =
     (if x = c then [] # split_on c xs
      else (case split_on c xs of [] \<Rightarrow> [[x]] | p # ps \<Rightarrow> (x # p) # ps))"

text \<open>
  \<^verbatim>\<open>int(s)\<close> on an ASCII string: white space (the space and the characters 0x09 to
  0x0D, and no other) is stripped at both ends, one sign is allowed, then at least one
  decimal digit and nothing else; \<open>None\<close> is \<^verbatim>\<open>ValueError\<close>. (The digit separator
  \<^verbatim>\<open>_\<close> of Python's literals cannot reach this function: it is applied to fields of
  \<^verbatim>\<open>split('_')\<close> only.)
\<close>

definition is_space :: "char \<Rightarrow> bool" where
  "is_space c = (c \<in> set [CHR '' '', CHR 0x09, CHR 0x0A, CHR 0x0B, CHR 0x0C, CHR 0x0D])"

definition strip :: "string \<Rightarrow> string" where
  "strip s = rev (dropWhile is_space (rev (dropWhile is_space s)))"

definition digits_val :: "string \<Rightarrow> nat" where
  "digits_val ds = foldl (\<lambda>a c. 10 * a + (case digit_val c of Some d \<Rightarrow> d | None \<Rightarrow> 0)) 0 ds"

definition unsigned_int :: "string \<Rightarrow> nat option" where
  "unsigned_int ds =
     (if ds \<noteq> [] \<and> list_all is_digit ds then Some (digits_val ds) else None)"

definition py_int :: "string \<Rightarrow> int option" where
  "py_int s =
     (case strip s of
        [] \<Rightarrow> None
      | c # r \<Rightarrow>
          if c = CHR ''-'' then map_option (\<lambda>v. - int v) (unsigned_int r)
          else if c = CHR ''+'' then map_option int (unsigned_int r)
          else map_option int (unsigned_int (c # r)))"

subsection \<open>The file system\<close>

text \<open>
  A directory is its listing, in the order \<^verbatim>\<open>glob\<close> yields it: names with their
  modification times (\<^verbatim>\<open>stat().st_mtime\<close>, a number of seconds) and contents. The two
  directories the code uses are \<^verbatim>\<open>Path(selected_image_path).parent\<close>, referred to by the
  selected path, and \<^verbatim>\<open>Path("banana")\<close>; a directory that does not exist is \<open>None\<close>.
\<close>

record entry =
  e_name :: string
  st_mtime :: real
  e_data :: bytes

type_synonym dir = "entry list"

datatype dir_ref = ParentOf string | BananaDir

type_synonym fs = "dir_ref \<Rightarrow> dir option"

type_synonym path = "dir_ref \<times> string"

definition path_exists :: "dir \<Rightarrow> string \<Rightarrow> bool" where
  "path_exists d nm = (nm \<in> set (map e_name d))"

text \<open>Saving to a name: an existing file is overwritten in place, a new one is added.\<close>

definition write_file :: "dir \<Rightarrow> string \<Rightarrow> real \<Rightarrow> bytes \<Rightarrow> dir" where
  "write_file d nm t b =
     (if path_exists d nm
      then map (\<lambda>e. if e_name e = nm then e\<lparr>st_mtime := t, e_data := b\<rparr> else e) d
      else d @ [\<lparr>e_name = nm, st_mtime = t, e_data = b\<rparr>])"

text \<open>
  What the code reads from outside: the local date, the time, whether the image library
  can open a blob (\<^verbatim>\<open>Image.open\<close> raises on bytes that are no image), whether it can
  then save the opened image (\<^verbatim>\<open>image.save\<close> raises on a truncated image, for one), and
  the bytes \<^verbatim>\<open>image.save(path, 'PNG')\<close> writes when it succeeds.
\<close>

record env =
  env_day :: nat
  env_month :: month
  env_time :: real
  decodable :: "bytes \<Rightarrow> bool"
  savable :: "bytes \<Rightarrow> bool"
  png_of :: "bytes \<Rightarrow> bytes"

definition date_str :: "env \<Rightarrow> string" where
  "date_str ev = date_str_of (env_day ev) (env_month ev)"

text \<open>
  The directory both the auto-save and the scan use:
  \<^verbatim>\<open>Path(self.selected_image_path).parent if self.save_on_original and self.selected_image_path
  else Path("banana")\<close>.
\<close>

definition target_dir :: "editor \<Rightarrow> dir_ref" where
  "target_dir s =
     (case selected_image_path s of
        Some p \<Rightarrow> if save_on_original s \<and> p \<noteq> [] then ParentOf p else BananaDir
      | None \<Rightarrow> BananaDir)"

subsection \<open>Sequential naming\<close>

text \<open>
  The loop of \<^verbatim>\<open>get_next_file_number\<close> over the matching files: the third field of the
  stem split at underscores is parsed; a file with fewer fields or a field that is no
  number is skipped (\<^verbatim>\<open>except (ValueError, IndexError): continue\<close>).
\<close>

fun extract_numbers :: "string list \<Rightarrow> int list" where
  "extract_numbers [] = []"
| "extract_numbers (file # rest) =
     (let name_parts = split_on (CHR ''_'') (stem file) in
      if 3 \<le> length name_parts then
        (case py_int (name_parts ! 2) of
           Some number \<Rightarrow> number # extract_numbers rest
         | None \<Rightarrow> extract_numbers rest)
      else extract_numbers rest)"

text \<open>\<^verbatim>\<open>max(numbers)\<close> on a list; the code calls it on a non-empty list only.\<close>

fun py_max :: "int list \<Rightarrow> int" where
  "py_max [] = 0"
| "py_max (x # xs) = fold max xs x"

text \<open>\<^verbatim>\<open>list(save_dir.glob(pattern))\<close>, as names; a missing directory yields nothing.\<close>

definition glob_names :: "fs \<Rightarrow> dir_ref \<Rightarrow> string \<Rightarrow> string list" where
  "glob_names files save_dir ds =
     (case files save_dir of None \<Rightarrow> [] | Some d \<Rightarrow> filter (glob_match ds) (map e_name d))"

definition get_next_file_number :: "fs \<Rightarrow> dir_ref \<Rightarrow> string \<Rightarrow> int" where
  "get_next_file_number files save_dir ds =
     (let existing_files = glob_names files save_dir ds in
      if existing_files = [] then 1
      else (let numbers = extract_numbers existing_files in
            if numbers \<noteq> [] then py_max numbers + 1 else 1))"

subsection \<open>Disk reconciliation\<close>

text \<open>
  \<^verbatim>\<open>_check_saved_files\<close> (a name cannot start with an underscore here): the matching
  entries are sorted by modification time, newest first (\<^verbatim>\<open>sort(key=..., reverse=True)\<close>
  is stable, as \<open>sort_key\<close> on the negated key is), cut to the first
  \<^verbatim>\<open>total_workers\<close>, and of these the ones younger than 300 seconds are returned.
\<close>

definition is_recent :: "real \<Rightarrow> entry \<Rightarrow> bool" where
  "is_recent current_time e = (current_time - st_mtime e < 300)"

definition newest_first :: "dir \<Rightarrow> dir" where
  "newest_first d = sort_key (\<lambda>e. - st_mtime e) d"

definition check_saved_files :: "editor \<Rightarrow> env \<Rightarrow> fs \<Rightarrow> path list" where
  "check_saved_files s ev files =
     (let check_dir = target_dir s in
      case files check_dir of
        None \<Rightarrow> []
      | Some d \<Rightarrow>
          (let saved_files = newest_first (filter (\<lambda>e. glob_match (date_str ev) (e_name e)) d);
               recent_files = filter (is_recent (env_time ev)) (take (total_workers s) saved_files)
           in map (\<lambda>e. (check_dir, e_name e)) recent_files))"

subsection \<open>Auto-save\<close>

text \<open>
  The collision loop of one artifact,
  \<^verbatim>\<open>while filepath.exists() and counter < 1000: counter += 1; filepath = ...\<close>,
  as a function of the counter; it returns the counter at which the loop is left.
\<close>

function free_counter :: "dir \<Rightarrow> string \<Rightarrow> int \<Rightarrow> nat \<Rightarrow> nat" where
  "free_counter d ds base counter =
     (if path_exists d (file_name ds (base + int counter)) \<and> counter < 1000
      then free_counter d ds base (counter + 1)
      else counter)"
  by pat_completeness auto
termination
  by (relation "measure (\<lambda>(d, ds, base, counter). 1000 - counter)") auto

declare free_counter.simps [simp del]

text \<open>The name one artifact is saved under: candidate \<open>base\<close>, moved on by the loop.\<close>

definition allocate :: "dir \<Rightarrow> string \<Rightarrow> int \<Rightarrow> string" where
  "allocate d ds base = file_name ds (base + int (free_counter d ds base 0))"

text \<open>A blob the loop gets through: the image library opens it and saves it.\<close>

definition storable :: "env \<Rightarrow> bytes \<Rightarrow> bool" where
  "storable ev image_data = (decodable ev image_data \<and> savable ev image_data)"

text \<open>
  The loop \<^verbatim>\<open>for i, image_data in enumerate(valid_results)\<close>. Opening a blob that is no
  image raises, and so may saving the opened image; either leaves the loop and the
  function (the \<open>False\<close> flag) with the files written before in place, and a save that
  raises is taken to leave no file of its own. The result lists the directory, the paths
  saved so far and the flag.
\<close>

fun save_loop ::
  "env \<Rightarrow> dir_ref \<Rightarrow> int \<Rightarrow> nat \<Rightarrow> bytes list \<Rightarrow> dir \<Rightarrow> path list \<Rightarrow> dir \<times> path list \<times> bool"
where
  "save_loop ev save_dir start_number i [] d saved_files = (d, saved_files, True)"
| "save_loop ev save_dir start_number i (image_data # rest) d saved_files =
     (if \<not> decodable ev image_data then (d, saved_files, False)
      else (let filename = allocate d (date_str ev) (start_number + int i) in
            if \<not> savable ev image_data then (d, saved_files, False)
            else save_loop ev save_dir start_number (i + 1) rest
                   (write_file d filename (env_time ev) (png_of ev image_data))
                   (saved_files @ [(save_dir, filename)])))"

datatype save_report = Skipped | Saved "path list" | SaveError

text \<open>\<^verbatim>\<open>save_dir.mkdir(exist_ok=True)\<close>\<close>

definition mkdir :: "fs \<Rightarrow> dir_ref \<Rightarrow> fs" where
  "mkdir files r = (case files r of None \<Rightarrow> files(r \<mapsto> []) | Some _ \<Rightarrow> files)"

text \<open>
  The validity loop of \<^verbatim>\<open>auto_save_results\<close>: a blob is kept under the test
  \<^verbatim>\<open>image_data and len(image_data) > 100\<close>.
\<close>

definition valid_results :: "bytes list \<Rightarrow> bytes list" where
  "valid_results rs = filter (\<lambda>image_data. image_data \<noteq> [] \<and> 100 < length image_data) rs"

text \<open>
  \<^verbatim>\<open>auto_save_results\<close>. An empty list and a list with no blob longer than 100 bytes
  return before anything is touched. The banana directory is created when missing; the
  folder of the original image is not, and saving into a missing directory raises.
\<close>

definition auto_save_results :: "editor \<Rightarrow> env \<Rightarrow> fs \<Rightarrow> bytes list \<Rightarrow> fs \<times> save_report" where
  "auto_save_results s ev files rs =
     (if rs = [] then (files, Skipped)
      else (let valid = valid_results rs in
        if valid = [] then (files, Skipped)
        else (let save_dir = target_dir s;
                  files1 = (if save_dir = BananaDir then mkdir files BananaDir else files);
                  start_number = get_next_file_number files1 save_dir (date_str ev)
              in case files1 save_dir of
                   None \<Rightarrow> (files1, SaveError)
                 | Some d \<Rightarrow>
                     (case save_loop ev save_dir start_number 0 valid d [] of
                        (d', saved_files, ok) \<Rightarrow>
                          (files1(save_dir \<mapsto> d'), if ok then Saved saved_files else SaveError)))))"

subsection \<open>Batch completion\<close>

text \<open>
  What the finalize step shows and which of its three status lines it writes:
  the success line with the number of images, the mixed-results line with the number of
  files found and the number of workers, or the failure line with the number of workers.
  \<open>ShownMock n\<close> is the call of \<^verbatim>\<open>test_display_mock_results\<close> for \<open>n\<close> workers, which
  shows \<open>n\<close> copies of \<^verbatim>\<open>error.png\<close> when that file exists.
\<close>

datatype shown = ShownResults "bytes list" | ShownSavedFiles "path list" | ShownMock nat | ShownNothing

datatype status_line = StatusSuccess nat | StatusMixed nat nat | StatusFailed nat

record outcome =
  shown :: shown
  status :: status_line

text \<open>
  \<^verbatim>\<open>on_all_batch_workers_complete\<close>. The scan runs first, and only under the guard
  \<^verbatim>\<open>self.selected_image_path\<close>; then the three branches; then the cleanup of the batch
  fields. In the failure branch the mock thumbnails are shown for more than one worker.
\<close>

definition on_all_batch_workers_complete ::
  "env \<Rightarrow> editor \<times> fs \<Rightarrow> (editor \<times> fs) \<times> outcome" where
  "on_all_batch_workers_complete ev w =
     (case w of (s0, files) \<Rightarrow>
       (let s = s0\<lparr>results := batch_results s0\<rparr>;
            has_api_results = (batch_results s \<noteq> []);
            saved_files = (if truthy (selected_image_path s) then check_saved_files s ev files else []);
            cleanup = (\<lambda>e. e\<lparr>batch_results := [], completed_workers := 0, total_workers := 0\<rparr>)
        in if has_api_results then
             ((cleanup s, fst (auto_save_results s ev files (batch_results s))),
              \<lparr>shown = ShownResults (batch_results s),
               status = StatusSuccess (length (batch_results s))\<rparr>)
           else if saved_files \<noteq> [] then
             ((cleanup s, files),
              \<lparr>shown = ShownSavedFiles saved_files,
               status = StatusMixed (length saved_files) (total_workers s)\<rparr>)
           else
             ((cleanup s, files),
              \<lparr>shown = (if 1 < total_workers s then ShownMock (total_workers s) else ShownNothing),
               status = StatusFailed (total_workers s)\<rparr>)))"

text \<open>
  The two signal handlers. Each returns the new state and, when it ran the finalize
  step, the editor as the finalize step found it together with the outcome.
\<close>

type_synonym finalized = "editor \<times> outcome"

definition finish_if_done :: "env \<Rightarrow> editor \<times> fs \<Rightarrow> (editor \<times> fs) \<times> finalized option" where
  "finish_if_done ev w =
     (if total_workers (fst w) \<le> completed_workers (fst w)
      then (case on_all_batch_workers_complete ev w of (w', out) \<Rightarrow> (w', Some (fst w, out)))
      else (w, None))"

definition on_batch_worker_complete ::
  "env \<Rightarrow> editor \<times> fs \<Rightarrow> bytes list \<Rightarrow> (editor \<times> fs) \<times> finalized option" where
  "on_batch_worker_complete ev w image_data_list =
     (case w of (s, files) \<Rightarrow>
        finish_if_done ev
          (s\<lparr>completed_workers := completed_workers s + 1,
             batch_results := batch_results s @ image_data_list\<rparr>, files))"

definition on_batch_worker_error ::
  "env \<Rightarrow> editor \<times> fs \<Rightarrow> string \<Rightarrow> (editor \<times> fs) \<times> finalized option" where
  "on_batch_worker_error ev w error_message =
     (case w of (s, files) \<Rightarrow>
        finish_if_done ev (s\<lparr>completed_workers := completed_workers s + 1\<rparr>, files))"

text \<open>
  A worker delivers exactly one of its two signals. The signals of a batch are handled
  one after the other, in the order of delivery; the run collects what each finalize
  step found and decided.
\<close>

datatype signal = Finished "bytes list" | Failed string

fun handle :: "env \<Rightarrow> editor \<times> fs \<Rightarrow> signal \<Rightarrow> (editor \<times> fs) \<times> finalized option" where
  "handle ev w (Finished image_data_list) = on_batch_worker_complete ev w image_data_list"
| "handle ev w (Failed error_message) = on_batch_worker_error ev w error_message"

fun deliver :: "env \<Rightarrow> editor \<times> fs \<Rightarrow> signal list \<Rightarrow> (editor \<times> fs) \<times> finalized list" where
  "deliver ev w [] = (w, [])"
| "deliver ev w (sig # sigs) =
     (case handle ev w sig of
        (w', fin) \<Rightarrow>
          (case deliver ev w' sigs of
             (w'', fins) \<Rightarrow> (w'', (case fin of None \<Rightarrow> [] | Some f \<Rightarrow> [f]) @ fins)))"

text \<open>
  The batch tracking fields as \<^verbatim>\<open>start_text_to_image_generation\<close> and
  \<^verbatim>\<open>start_batch_image_editing\<close> initialise them.
\<close>

definition start_batch :: "editor \<Rightarrow> nat \<Rightarrow> editor" where
  "start_batch s batch_count = s\<lparr>batch_results := [], completed_workers := 0, total_workers := batch_count\<rparr>"

subsection \<open>Concrete sessions and runs\<close>

text \<open>The editor as \<^verbatim>\<open>__init__\<close> leaves it: four empty slots, saving to the original folder.\<close>

definition new_editor :: editor where
  "new_editor = \<lparr>image_paths = [None, None, None, None], selected_image_path = None,
     save_on_original = True, batch_results = [], completed_workers = 0, total_workers = 0,
     results = []\<rparr>"

text \<open>Sequencing of calls that may raise.\<close>

definition and_then :: "'e + 'a \<Rightarrow> ('a \<Rightarrow> 'e + 'b) \<Rightarrow> 'e + 'b" where
  "and_then r f = (case r of Inl e \<Rightarrow> Inl e | Inr v \<Rightarrow> f v)"

definition add_path :: "string \<Rightarrow> editor \<Rightarrow> py_error + editor" where
  "add_path p s = and_then (add_image_to_next_available_slot s p) (\<lambda>r. Inr (fst r))"

definition remove_at :: "int \<Rightarrow> editor \<Rightarrow> py_error + editor" where
  "remove_at i s = remove_image_from_slot s i"

definition full_session :: editor where
  "full_session = new_editor\<lparr>image_paths := [Some ''a.png'', Some ''b.png'', Some ''c.png'', Some ''d.png''],
     selected_image_path := Some ''a.png''\<rparr>"

definition gap_session :: editor where
  "gap_session = new_editor\<lparr>image_paths := [Some ''a.png'', None, Some ''c.png'', None],
     selected_image_path := Some ''a.png''\<rparr>"

text \<open>
  Three paths are added, then slots 0 and 1 are cleared, which leaves index 2 as the only
  filled slot; the next path added goes to index 0.
\<close>

definition fill_2_then_0 :: "py_error + editor" where
  "fill_2_then_0 =
     and_then (and_then (and_then (and_then (and_then (add_path ''a.png'' new_editor)
       (add_path ''b.png'')) (add_path ''c.png'')) (remove_at 0)) (remove_at 1)) (add_path ''d.png'')"

text \<open>The image lists of the success signals of a run, in the order of delivery.\<close>

fun finished_payloads :: "signal list \<Rightarrow> bytes list list" where
  "finished_payloads [] = []"
| "finished_payloads (Finished image_data_list # sigs) = image_data_list # finished_payloads sigs"
| "finished_payloads (Failed error_message # sigs) = finished_payloads sigs"

text \<open>
  A clock reading (1 September, 1000 seconds), an image library that opens and saves
  every blob and writes it back as it is, a file system with no directory, and blobs of
  101 equal bytes.
\<close>

definition env0 :: env where
  "env0 = \<lparr>env_day = 1, env_month = Sep, env_time = 1000, decodable = (\<lambda>b. True),
     savable = (\<lambda>b. True), png_of = (\<lambda>b. b)\<rparr>"

definition no_files :: fs where
  "no_files = (\<lambda>r. None)"

definition blob :: "8 word \<Rightarrow> bytes" where
  "blob b = replicate 101 b"

text \<open>
  A batch of three workers: the first and the third deliver one image each, the second
  fails; and the same three signals delivered in another order.
\<close>

definition three_signals :: "signal list" where
  "three_signals = [Finished [blob 1], Failed ''blocked'', Finished [blob 2]]"

definition three_signals_reordered :: "signal list" where
  "three_signals_reordered = [Failed ''blocked'', Finished [blob 2], Finished [blob 1]]"

text \<open>
  A banana directory holding two files of today's bucket, written 10 and 9 seconds before
  the clock reading of \<open>env0\<close>; a two-worker batch whose workers have both failed, once
  with no source image selected (text to image) and once with a source image selected and
  saving to the banana directory.
\<close>

definition recent_dir :: dir where
  "recent_dir = [\<lparr>e_name = file_name ''1sep'' 1, st_mtime = 990, e_data = blob 1\<rparr>,
                 \<lparr>e_name = file_name ''1sep'' 2, st_mtime = 991, e_data = blob 2\<rparr>]"

definition banana_files :: fs where
  "banana_files = (\<lambda>r. if r = BananaDir then Some recent_dir else None)"

definition failed_text_batch :: editor where
  "failed_text_batch = new_editor\<lparr>completed_workers := 2, total_workers := 2\<rparr>"

definition failed_edit_batch :: editor where
  "failed_edit_batch = new_editor\<lparr>image_paths := [Some ''in/cat.png'', None, None, None],
     selected_image_path := Some ''in/cat.png'', save_on_original := False,
     completed_workers := 2, total_workers := 2\<rparr>"

definition done_edit_batch :: editor where
  "done_edit_batch = failed_edit_batch\<lparr>batch_results := [blob 1]\<rparr>"

text \<open>The listing of a directory, empty for a directory that does not exist.\<close>

definition listing :: "fs \<Rightarrow> dir_ref \<Rightarrow> dir" where
  "listing files r = (case files r of None \<Rightarrow> [] | Some d \<Rightarrow> d)"

text \<open>
  A banana directory with three files of today's bucket written 200, 10 and 5 seconds
  ago, one written 400 seconds ago, and a file of another name written a second ago.
\<close>

definition mixed_dir :: dir where
  "mixed_dir = [\<lparr>e_name = file_name ''1sep'' 1, st_mtime = 600, e_data = blob 1\<rparr>,
                \<lparr>e_name = file_name ''1sep'' 2, st_mtime = 800, e_data = blob 2\<rparr>,
                \<lparr>e_name = file_name ''1sep'' 3, st_mtime = 990, e_data = blob 3\<rparr>,
                \<lparr>e_name = ''notes.txt'', st_mtime = 999, e_data = []\<rparr>,
                \<lparr>e_name = file_name ''1sep'' 4, st_mtime = 995, e_data = blob 4\<rparr>]"

definition mixed_files :: fs where
  "mixed_files = (\<lambda>r. if r = BananaDir then Some mixed_dir else None)"

text \<open>
  A banana directory whose files of the bucket 1sep carry the numbers 3, 1, 5 and 2, next
  to a file of another name and a file of another bucket.
\<close>

definition numbered_dir :: dir where
  "numbered_dir = [\<lparr>e_name = file_name ''1sep'' 3, st_mtime = 30, e_data = blob 3\<rparr>,
                   \<lparr>e_name = ''notes.txt'', st_mtime = 40, e_data = []\<rparr>,
                   \<lparr>e_name = file_name ''1sep'' 1, st_mtime = 10, e_data = blob 1\<rparr>,
                   \<lparr>e_name = file_name ''2sep'' 9, st_mtime = 90, e_data = blob 9\<rparr>,
                   \<lparr>e_name = file_name ''1sep'' 5, st_mtime = 50, e_data = blob 5\<rparr>,
                   \<lparr>e_name = file_name ''1sep'' 2, st_mtime = 20, e_data = blob 2\<rparr>]"

definition numbered_files :: fs where
  "numbered_files = (\<lambda>r. if r = BananaDir then Some numbered_dir else None)"

text \<open>
  A banana directory whose two files match the pattern of the bucket 1sep without a
  number that \<^verbatim>\<open>int\<close> accepts: the third field of the first is the character 0x1F
  followed by 7, that of the second is the word final.
\<close>

definition unparsed_dir :: dir where
  "unparsed_dir = [\<lparr>e_name = ''banana_1sep_'' @ [CHR 0x1F] @ ''7.png'', st_mtime = 10, e_data = blob 1\<rparr>,
                   \<lparr>e_name = ''banana_1sep_final.png'', st_mtime = 20, e_data = blob 2\<rparr>]"

definition unparsed_files :: fs where
  "unparsed_files = (\<lambda>r. if r = BananaDir then Some unparsed_dir else None)"

text \<open>
  The entry the save loop adds for the blob at position \<open>j\<close> of the valid list when its
  candidate name is free, and its path.
\<close>

definition saved_entry :: "env \<Rightarrow> int \<Rightarrow> nat \<times> bytes \<Rightarrow> entry" where
  "saved_entry ev start jb =
     \<lparr>e_name = file_name (date_str ev) (start + int (fst jb)), st_mtime = env_time ev,
      e_data = png_of ev (snd jb)\<rparr>"

definition saved_path :: "env \<Rightarrow> dir_ref \<Rightarrow> int \<Rightarrow> nat \<Rightarrow> path" where
  "saved_path ev save_dir start j = (save_dir, file_name (date_str ev) (start + int j))"

text \<open>
  A directory holding the files numbered 1 to 1001 of the bucket 1sep, as a writer racing
  with the save step may leave it; and a result list whose second blob has 100 bytes.
\<close>

definition numbered_entry :: "nat \<Rightarrow> entry" where
  "numbered_entry k = \<lparr>e_name = file_name ''1sep'' (int k), st_mtime = 0, e_data = blob 0\<rparr>"

definition full_dir :: dir where
  "full_dir = map numbered_entry [1..<1002]"

definition three_results :: "bytes list" where
  "three_results = [blob 1, replicate 100 0, blob 2]"

text \<open>
  A blob of 200 zero bytes, long enough to be valid; an image library that opens every
  blob but this one; and a result list with this blob between two images.
\<close>

definition junk :: bytes where
  "junk = replicate 200 0"

definition picky_env :: env where
  "picky_env = env0\<lparr>decodable := (\<lambda>b. b \<noteq> junk)\<rparr>"

definition junk_between :: "bytes list" where
  "junk_between = [blob 1, junk, blob 2]"

section \<open>Properties\<close>

subsection \<open>Image slots\<close>

lemma all_less_4: "(\<forall>i<4::nat. P i) \<longleftrightarrow> P 0 \<and> P 1 \<and> P 2 \<and> P 3"
proof -
  have "{i::nat. i < 4} = {0, 1, 2, 3}" by auto
  then show ?thesis by (metis (mono_tags, lifting) insertCI insertE mem_Collect_eq singletonD)
qed

lemma four_slots:
  assumes "length (xs :: 'a list) = 4"
  obtains a b c d where "xs = [a, b, c, d]"
proof -
  from assms obtain a r1 where "xs = a # r1" "length r1 = 3" by (cases xs) auto
  moreover then obtain b r2 where "r1 = b # r2" "length r2 = 2" by (cases r1) auto
  moreover then obtain c r3 where "r2 = c # r3" "length r3 = 1" by (cases r2) auto
  moreover then obtain d where "r3 = [d]" by (cases r3) auto
  ultimately show ?thesis using that by simp
qed

lemma image_paths_update_image_info: "image_paths (update_image_info e) = image_paths e"
  by (simp add: update_image_info_def split: list.splits)

text \<open>
  C7. In a session of four slots, \<^verbatim>\<open>add_image_to_next_available_slot\<close> returns \<open>False\<close>
  and the unchanged editor when every slot is occupied; otherwise it writes the path into
  the empty slot of lowest index (every slot before it is occupied), touches no other
  slot and returns \<open>True\<close>. After \<^verbatim>\<open>remove_image_from_slot(1)\<close> on a full session the next
  path added lands at index 1, the other three slots keeping their paths.
\<close>

theorem add_fills_lowest_free_slot:
  assumes len: "length (image_paths s) = 4"
  shows "((\<forall>i<4. image_paths s ! i \<noteq> None) \<longrightarrow>
            add_image_to_next_available_slot s p = Inr (s, False))
       \<and> (\<forall>i<4. image_paths s ! i = None \<and> (\<forall>j<i. image_paths s ! j \<noteq> None) \<longrightarrow>
            add_image_to_next_available_slot s p =
              Inr (update_image_info (s\<lparr>image_paths := (image_paths s)[i := Some p]\<rparr>), True))
       \<and> ((\<forall>i<4. image_paths s ! i \<noteq> None) \<longrightarrow>
            (\<exists>s1 s2. remove_image_from_slot s 1 = Inr s1
               \<and> add_image_to_next_available_slot s1 p = Inr (s2, True)
               \<and> image_paths s2 = (image_paths s)[1 := Some p]))"
proof -
  from len obtain a b c d where ps: "image_paths s = [a, b, c, d]" by (rule four_slots)
  have full: "add_image_to_next_available_slot s p = Inr (s, False)"
    if "\<forall>i<4. image_paths s ! i \<noteq> None"
    using that ps by (simp add: all_less_4 add_image_to_next_available_slot_def)
  have first: "add_image_to_next_available_slot s p =
      Inr (update_image_info (s\<lparr>image_paths := (image_paths s)[i := Some p]\<rparr>), True)"
    if "i < 4" "image_paths s ! i = None" "\<forall>j<i. image_paths s ! j \<noteq> None" for i
  proof -
    from that(1) consider "i = 0" | "i = 1" | "i = 2" | "i = 3" by linarith
    then show ?thesis
    proof cases
      case 1 with that ps show ?thesis by (simp add: add_image_to_next_available_slot_def)
    next
      case 2 with that(2) that(3)[rule_format, of 0] ps show ?thesis
        by (auto simp: add_image_to_next_available_slot_def)
    next
      case 3 with that(2) that(3)[rule_format, of 0] that(3)[rule_format, of 1] ps show ?thesis
        by (auto simp: add_image_to_next_available_slot_def)
    next
      case 4 with that(2) that(3)[rule_format, of 0] that(3)[rule_format, of 1]
        that(3)[rule_format, of 2] ps show ?thesis
        by (auto simp: add_image_to_next_available_slot_def)
    qed
  qed
  have reuse: "\<exists>s1 s2. remove_image_from_slot s 1 = Inr s1
               \<and> add_image_to_next_available_slot s1 p = Inr (s2, True)
               \<and> image_paths s2 = (image_paths s)[1 := Some p]"
    if "\<forall>i<4. image_paths s ! i \<noteq> None"
  proof -
    let ?s1 = "update_image_info (s\<lparr>image_paths := (image_paths s)[1 := None]\<rparr>)"
    have r: "remove_image_from_slot s 1 = Inr ?s1"
      using ps by (simp add: remove_image_from_slot_def)
    have ps1: "image_paths ?s1 = [a, None, c, d]"
      using ps by (simp add: image_paths_update_image_info)
    from that ps have "a \<noteq> None" by (simp add: all_less_4)
    with ps1 have "add_image_to_next_available_slot ?s1 p =
        Inr (update_image_info (?s1\<lparr>image_paths := (image_paths ?s1)[1 := Some p]\<rparr>), True)"
      by (auto simp: add_image_to_next_available_slot_def)
    moreover have "image_paths (update_image_info (?s1\<lparr>image_paths := (image_paths ?s1)[1 := Some p]\<rparr>))
        = (image_paths s)[1 := Some p]"
      using ps ps1 by (simp add: image_paths_update_image_info)
    ultimately show ?thesis using r by blast
  qed
  from full first reuse show ?thesis by blast
qed

theorem add_fills_lowest_free_slot_witness:
  "length (image_paths full_session) = 4
   \<and> add_image_to_next_available_slot full_session ''e.png'' = Inr (full_session, False)
   \<and> (\<exists>s1 s2. remove_image_from_slot full_session 1 = Inr s1
         \<and> add_image_to_next_available_slot s1 ''e.png'' = Inr (s2, True)
         \<and> image_paths s2 = [Some ''a.png'', Some ''e.png'', Some ''c.png'', Some ''d.png''])
   \<and> length (image_paths gap_session) = 4
   \<and> add_image_to_next_available_slot gap_session ''e.png'' =
       Inr (gap_session\<lparr>image_paths := [Some ''a.png'', Some ''e.png'', Some ''c.png'', None]\<rparr>, True)"
proof -
  have lf: "length (image_paths full_session) = 4"
    by (simp add: full_session_def new_editor_def)
  have occ: "\<forall>i<4. image_paths full_session ! i \<noteq> None"
    by (simp add: all_less_4 full_session_def new_editor_def)
  have lg: "length (image_paths gap_session) = 4"
    by (simp add: gap_session_def new_editor_def)
  have free: "image_paths gap_session ! 1 = None \<and> (\<forall>j<1. image_paths gap_session ! j \<noteq> None)"
    by (simp add: gap_session_def new_editor_def)
  have upd: "update_image_info (gap_session\<lparr>image_paths := (image_paths gap_session)[1 := Some ''e.png'']\<rparr>)
      = gap_session\<lparr>image_paths := [Some ''a.png'', Some ''e.png'', Some ''c.png'', None]\<rparr>"
    by (simp add: gap_session_def new_editor_def update_image_info_def get_active_image_paths_def
        List.map_filter_simps)
  have full_list: "(image_paths full_session)[1 := Some ''e.png'']
      = [Some ''a.png'', Some ''e.png'', Some ''c.png'', Some ''d.png'']"
    by (simp add: full_session_def new_editor_def)
  from add_fills_lowest_free_slot [OF lf, of "''e.png''"] occ
  have a: "add_image_to_next_available_slot full_session ''e.png'' = Inr (full_session, False)"
    and b: "\<exists>s1 s2. remove_image_from_slot full_session 1 = Inr s1
         \<and> add_image_to_next_available_slot s1 ''e.png'' = Inr (s2, True)
         \<and> image_paths s2 = (image_paths full_session)[1 := Some ''e.png'']"
    by blast+
  from add_fills_lowest_free_slot [OF lg, of "''e.png''"] free
  have c: "add_image_to_next_available_slot gap_session ''e.png'' =
       Inr (update_image_info (gap_session\<lparr>image_paths := (image_paths gap_session)[1 := Some ''e.png'']\<rparr>), True)"
    by (metis one_less_numeral_iff semiring_norm(76))
  from a b c lf lg show ?thesis by (simp only: upd full_list)
qed

text \<open>
  C8. \<^verbatim>\<open>get_active_image_paths\<close> returns the paths of the occupied slots, in ascending
  order of slot index: the result is a function of the slots alone, whatever the order in
  which they were filled. When index 2 is filled first and index 0 after it, the list
  is the path at 0 followed by the path at 2.
\<close>

theorem active_paths_in_slot_order:
  "get_active_image_paths s =
     map (\<lambda>i. the (image_paths s ! i))
       (filter (\<lambda>i. image_paths s ! i \<noteq> None) [0..<length (image_paths s)])
   \<and> and_then fill_2_then_0 (\<lambda>e. Inr (image_paths e, get_active_image_paths e))
       = Inr ([Some ''d.png'', None, Some ''c.png'', None], [''d.png'', ''c.png''])"
proof -
  have "List.map_filter (\<lambda>x. x) xs
      = map (\<lambda>i. the (xs ! i)) (filter (\<lambda>i. xs ! i \<noteq> None) [0..<length xs])"
    for xs :: "string option list"
  proof (induction xs rule: rev_induct)
    case Nil
    show ?case by (simp add: List.map_filter_simps)
  next
    case (snoc x xs)
    have "filter (\<lambda>i. (xs @ [x]) ! i \<noteq> None) [0..<length xs]
        = filter (\<lambda>i. xs ! i \<noteq> None) [0..<length xs]"
      by (rule filter_cong) (auto simp: nth_append)
    moreover have "map (\<lambda>i. the ((xs @ [x]) ! i)) (filter (\<lambda>i. xs ! i \<noteq> None) [0..<length xs])
        = map (\<lambda>i. the (xs ! i)) (filter (\<lambda>i. xs ! i \<noteq> None) [0..<length xs])"
      by (rule map_cong) (auto simp: nth_append)
    ultimately show ?case using snoc.IH
      by (cases x) (simp_all add: List.map_filter_def)
  qed
  then have general: "get_active_image_paths s =
     map (\<lambda>i. the (image_paths s ! i))
       (filter (\<lambda>i. image_paths s ! i \<noteq> None) [0..<length (image_paths s)])"
    by (simp add: get_active_image_paths_def)
  have example: "and_then fill_2_then_0 (\<lambda>e. Inr (image_paths e, get_active_image_paths e))
       = Inr ([Some ''d.png'', None, Some ''c.png'', None], [''d.png'', ''c.png''])"
    by code_simp
  from general example show ?thesis by (rule conjI)
qed

subsection \<open>Batch completion\<close>

lemma finished_payloads_append:
  "finished_payloads (xs @ ys) = finished_payloads xs @ finished_payloads ys"
  by (induction xs rule: finished_payloads.induct) simp_all

lemma handle_collecting:
  assumes "completed_workers s + 1 < total_workers s"
  shows "handle ev (s, files) sig =
      ((s\<lparr>completed_workers := completed_workers s + 1,
           batch_results := batch_results s @ concat (finished_payloads [sig])\<rparr>, files), None)"
  using assms
  by (cases sig) (simp_all add: on_batch_worker_complete_def on_batch_worker_error_def finish_if_done_def)

lemma handle_last:
  assumes "total_workers s \<le> completed_workers s + 1"
  shows "handle ev (s, files) sig =
      (let entry = s\<lparr>completed_workers := completed_workers s + 1,
                       batch_results := batch_results s @ concat (finished_payloads [sig])\<rparr>
       in (fst (on_all_batch_workers_complete ev (entry, files)),
           Some (entry, snd (on_all_batch_workers_complete ev (entry, files)))))"
  using assms
  by (cases sig)
     (simp_all add: on_batch_worker_complete_def on_batch_worker_error_def finish_if_done_def
        Let_def split: prod.splits)

lemma deliver_collecting:
  "completed_workers s + length sigs < total_workers s \<Longrightarrow>
   deliver ev (s, files) sigs =
     ((s\<lparr>completed_workers := completed_workers s + length sigs,
          batch_results := batch_results s @ concat (finished_payloads sigs)\<rparr>, files), [])"
proof (induction sigs arbitrary: s)
  case Nil
  show ?case by simp
next
  case (Cons sig sigs)
  let ?s1 = "s\<lparr>completed_workers := completed_workers s + 1,
           batch_results := batch_results s @ concat (finished_payloads [sig])\<rparr>"
  from Cons.prems have h: "handle ev (s, files) sig = ((?s1, files), None)"
    by (intro handle_collecting) simp
  from Cons.prems have "completed_workers ?s1 + length sigs < total_workers ?s1" by simp
  from Cons.IH [OF this] h show ?case
    by (cases sig) simp_all
qed

lemma deliver_append:
  "deliver ev w (xs @ ys) =
     (case deliver ev w xs of (w', l1) \<Rightarrow>
        (case deliver ev w' ys of (w'', l2) \<Rightarrow> (w'', l1 @ l2)))"
  by (induction xs arbitrary: w) (auto split: prod.splits)

lemma finalize_cleanup:
  "completed_workers (fst (fst (on_all_batch_workers_complete ev (s, files)))) = 0
   \<and> total_workers (fst (fst (on_all_batch_workers_complete ev (s, files)))) = 0
   \<and> batch_results (fst (fst (on_all_batch_workers_complete ev (s, files)))) = []
   \<and> results (fst (fst (on_all_batch_workers_complete ev (s, files)))) = batch_results s"
  by (simp add: on_all_batch_workers_complete_def Let_def)

lemma deliver_snoc:
  assumes "completed_workers s0 + length front + 1 = total_workers s0"
  shows "deliver ev (s0, files) (front @ [sig]) =
     (let entry = s0\<lparr>completed_workers := completed_workers s0 + length front + 1,
                     batch_results := batch_results s0 @ concat (finished_payloads (front @ [sig]))\<rparr>
      in (fst (on_all_batch_workers_complete ev (entry, files)),
          [(entry, snd (on_all_batch_workers_complete ev (entry, files)))]))"
proof -
  let ?s1 = "s0\<lparr>completed_workers := completed_workers s0 + length front,
          batch_results := batch_results s0 @ concat (finished_payloads front)\<rparr>"
  from assms have "completed_workers s0 + length front < total_workers s0" by simp
  then have front: "deliver ev (s0, files) front = ((?s1, files), [])"
    by (rule deliver_collecting)
  from assms have "total_workers ?s1 \<le> completed_workers ?s1 + 1" by simp
  from handle_last [OF this, of ev files sig]
  have last: "deliver ev (?s1, files) [sig] =
     (let entry = s0\<lparr>completed_workers := completed_workers s0 + length front + 1,
                     batch_results := batch_results s0 @ concat (finished_payloads (front @ [sig]))\<rparr>
      in (fst (on_all_batch_workers_complete ev (entry, files)),
          [(entry, snd (on_all_batch_workers_complete ev (entry, files)))]))"
    by (simp add: Let_def finished_payloads_append)
  show ?thesis
    by (simp only: deliver_append front last Let_def prod.case append_Nil)
qed

lemma deliver_batch:
  assumes "sigs \<noteq> []"
  shows "deliver ev (start_batch s (length sigs), files) sigs =
     (let entry = (start_batch s (length sigs))\<lparr>completed_workers := length sigs,
                     batch_results := concat (finished_payloads sigs)\<rparr>
      in (fst (on_all_batch_workers_complete ev (entry, files)),
          [(entry, snd (on_all_batch_workers_complete ev (entry, files)))]))"
proof -
  from assms obtain front sig where sigs: "sigs = front @ [sig]"
    by (metis rev_exhaust)
  have "completed_workers (start_batch s (length sigs)) + length front + 1
      = total_workers (start_batch s (length sigs))"
    by (simp add: start_batch_def sigs)
  from deliver_snoc [OF this, of ev files sig] show ?thesis
    by (simp add: sigs start_batch_def Let_def)
qed


text \<open>
  C2 (amended). For every batch of N \<ge> 1 workers (so for N from 1 to 4) and every
  sequence of exactly N completion signals, successes and failures in any order: the
  finalize step runs exactly once, in the handler of the N-th signal; it finds the
  completed-worker counter equal to N, and its cleanup resets the counter, which is
  therefore 0 once the N signals are handled. After k < N signals the finalize step has
  not run and the counter is k.
\<close>

theorem finalize_exactly_once:
  assumes "sigs \<noteq> []"
  shows "\<exists>w' entry out.
           deliver ev (start_batch s (length sigs), files) sigs = (w', [(entry, out)])
         \<and> completed_workers entry = length sigs \<and> total_workers entry = length sigs
         \<and> completed_workers (fst w') = 0
         \<and> (\<forall>k<length sigs.
              snd (deliver ev (start_batch s (length sigs), files) (take k sigs)) = []
            \<and> completed_workers (fst (fst (deliver ev (start_batch s (length sigs), files) (take k sigs)))) = k)"
proof -
  let ?s0 = "start_batch s (length sigs)"
  let ?entry = "?s0\<lparr>completed_workers := length sigs, batch_results := concat (finished_payloads sigs)\<rparr>"
  have run: "deliver ev (?s0, files) sigs =
      (fst (on_all_batch_workers_complete ev (?entry, files)),
       [(?entry, snd (on_all_batch_workers_complete ev (?entry, files)))])"
    using deliver_batch [OF assms, of ev s files] by (simp add: Let_def)
  have entry: "completed_workers ?entry = length sigs \<and> total_workers ?entry = length sigs"
    by (simp add: start_batch_def)
  have after: "completed_workers (fst (fst (on_all_batch_workers_complete ev (?entry, files)))) = 0"
    using finalize_cleanup by blast
  have before: "snd (deliver ev (?s0, files) (take k sigs)) = []
      \<and> completed_workers (fst (fst (deliver ev (?s0, files) (take k sigs)))) = k"
    if "k < length sigs" for k
  proof -
    from that have "completed_workers ?s0 + length (take k sigs) < total_workers ?s0"
      by (simp add: start_batch_def)
    from deliver_collecting [OF this] that show ?thesis
      by (simp add: start_batch_def)
  qed
  from run entry after before show ?thesis by blast
qed

theorem finalize_exactly_once_witness:
  "three_signals \<noteq> []
   \<and> (\<exists>w' entry out.
         deliver env0 (start_batch new_editor 3, no_files) three_signals = (w', [(entry, out)])
       \<and> completed_workers entry = 3 \<and> total_workers entry = 3 \<and> completed_workers (fst w') = 0)
   \<and> snd (deliver env0 (start_batch new_editor 3, no_files) (take 2 three_signals)) = []
   \<and> completed_workers (fst (fst (deliver env0 (start_batch new_editor 3, no_files) (take 2 three_signals)))) = 2"
proof -
  have ne: "three_signals \<noteq> []" by (simp add: three_signals_def)
  have l: "length three_signals = 3" by (simp add: three_signals_def)
  from finalize_exactly_once [OF ne, of env0 new_editor no_files] ne show ?thesis
    unfolding l by (metis lessI numeral_2_eq_2 numeral_3_eq_3)
qed

text \<open>
  C2 as stated fails: after the one signal of a one-worker batch is handled, the
  completed-worker counter is 0, not 1.
\<close>

theorem counter_reset_counterexample:
  "length [Failed ''blocked''] = 1
   \<and> completed_workers (fst (fst (deliver env0 (start_batch new_editor 1, no_files) [Failed ''blocked'']))) = 0"
  by code_simp

subsection \<open>Accumulated results\<close>

lemma mset_concat_finished_payloads:
  "mset (concat (finished_payloads sigs)) =
     (\<Sum>sig\<in>#mset sigs. mset (concat (finished_payloads [sig])))"
  by (induction sigs rule: finished_payloads.induct) simp_all

text \<open>
  C6. When the N signals of a batch of N \<ge> 1 workers are handled, the result list the
  finalize step finds, and keeps in \<^verbatim>\<open>self.results\<close>, is the concatenation of the image
  lists of the successful workers in the order of delivery; its length is the sum of
  their image counts; and delivering the same signals in any other order yields the same
  multiset of results.
\<close>

theorem accumulated_results_sum:
  assumes "sigs \<noteq> []" and "mset sigs' = mset sigs"
  shows "map (batch_results \<circ> fst) (snd (deliver ev (start_batch s (length sigs), files) sigs))
           = [concat (finished_payloads sigs)]
       \<and> results (fst (fst (deliver ev (start_batch s (length sigs), files) sigs)))
           = concat (finished_payloads sigs)
       \<and> length (concat (finished_payloads sigs)) = sum_list (map length (finished_payloads sigs))
       \<and> mset (results (fst (fst (deliver ev (start_batch s (length sigs'), files) sigs'))))
           = mset (results (fst (fst (deliver ev (start_batch s (length sigs), files) sigs))))"
proof -
  have res: "results (fst (fst (deliver ev (start_batch s (length xs), files) xs)))
           = concat (finished_payloads xs)
         \<and> map (batch_results \<circ> fst) (snd (deliver ev (start_batch s (length xs), files) xs))
           = [concat (finished_payloads xs)]" if "xs \<noteq> []" for xs
    using deliver_batch [OF that, of ev s files] finalize_cleanup by (simp add: Let_def)
  from assms have ne': "sigs' \<noteq> []" by auto
  have "mset (concat (finished_payloads sigs')) = mset (concat (finished_payloads sigs))"
    by (simp add: mset_concat_finished_payloads [of sigs'] mset_concat_finished_payloads [of sigs] assms(2))
  with res [OF assms(1)] res [OF ne'] show ?thesis
    by (simp add: length_concat)
qed

theorem accumulated_results_sum_witness:
  "three_signals \<noteq> [] \<and> mset three_signals_reordered = mset three_signals
   \<and> results (fst (fst (deliver env0 (start_batch new_editor 3, no_files) three_signals)))
       = [blob 1, blob 2]
   \<and> results (fst (fst (deliver env0 (start_batch new_editor 3, no_files) three_signals_reordered)))
       = [blob 2, blob 1]
   \<and> mset (results (fst (fst (deliver env0 (start_batch new_editor 3, no_files) three_signals_reordered))))
       = mset (results (fst (fst (deliver env0 (start_batch new_editor 3, no_files) three_signals))))"
proof -
  have ne: "three_signals \<noteq> []" by (simp add: three_signals_def)
  have perm: "mset three_signals_reordered = mset three_signals"
    by (simp add: three_signals_def three_signals_reordered_def)
  have l: "length three_signals = 3" "length three_signals_reordered = 3"
    by (simp_all add: three_signals_def three_signals_reordered_def)
  have p: "concat (finished_payloads three_signals) = [blob 1, blob 2]"
    by (simp add: three_signals_def)
  have p': "concat (finished_payloads three_signals_reordered) = [blob 2, blob 1]"
    by (simp add: three_signals_reordered_def)
  have ne': "three_signals_reordered \<noteq> []" by (simp add: three_signals_reordered_def)
  from accumulated_results_sum [OF ne' refl, of env0 new_editor no_files]
  have r': "results (fst (fst (deliver env0 (start_batch new_editor 3, no_files) three_signals_reordered)))
       = [blob 2, blob 1]"
    unfolding l p' by (rule conjunct1 [OF conjunct2])
  from accumulated_results_sum [OF ne perm, of env0 new_editor no_files]
  have "results (fst (fst (deliver env0 (start_batch new_editor 3, no_files) three_signals)))
       = [blob 1, blob 2]
     \<and> mset (results (fst (fst (deliver env0 (start_batch new_editor 3, no_files) three_signals_reordered))))
       = mset (results (fst (fst (deliver env0 (start_batch new_editor 3, no_files) three_signals))))"
    unfolding l p by blast
  with ne perm r' show ?thesis by blast
qed

subsection \<open>The finalize decision\<close>

lemma check_saved_files_eq:
  "check_saved_files s ev files =
     (case files (target_dir s) of
        None \<Rightarrow> []
      | Some d \<Rightarrow>
          map (\<lambda>e. (target_dir s, e_name e))
            (filter (is_recent (env_time ev))
               (take (total_workers s)
                  (newest_first (filter (\<lambda>e. glob_match (date_str ev) (e_name e)) d)))))"
  by (simp add: check_saved_files_def Let_def split: option.splits)

lemma target_dir_results: "target_dir (s\<lparr>results := r\<rparr>) = target_dir s"
  by (simp add: target_dir_def split: option.splits)

lemma check_saved_files_results:
  "check_saved_files (s\<lparr>results := r\<rparr>) ev files = check_saved_files s ev files"
  by (simp add: check_saved_files_eq target_dir_results cong: option.case_cong)

text \<open>
  C1 (amended). The finalize outcome is decided in this order. If the accumulated result
  list is not empty, it is the result set (shown, and kept in \<^verbatim>\<open>self.results\<close>), with the
  one success status and the number of images, whether or not some worker failed.
  Otherwise, if a source image path is selected and the scan of the target save directory
  returns at least one file, those files are the result set, with the mixed-results
  status. Otherwise (no source image selected, or nothing found) the status is the
  failure status and the result set is empty.
\<close>

theorem finalize_decision:
  "(batch_results s \<noteq> [] \<longrightarrow>
      snd (on_all_batch_workers_complete ev (s, files)) =
        \<lparr>shown = ShownResults (batch_results s), status = StatusSuccess (length (batch_results s))\<rparr>
    \<and> results (fst (fst (on_all_batch_workers_complete ev (s, files)))) = batch_results s)
 \<and> (batch_results s = [] \<and> truthy (selected_image_path s) \<and> check_saved_files s ev files \<noteq> [] \<longrightarrow>
      snd (on_all_batch_workers_complete ev (s, files)) =
        \<lparr>shown = ShownSavedFiles (check_saved_files s ev files),
         status = StatusMixed (length (check_saved_files s ev files)) (total_workers s)\<rparr>)
 \<and> (batch_results s = [] \<and> (truthy (selected_image_path s) \<longrightarrow> check_saved_files s ev files = []) \<longrightarrow>
      snd (on_all_batch_workers_complete ev (s, files)) =
        \<lparr>shown = (if 1 < total_workers s then ShownMock (total_workers s) else ShownNothing),
         status = StatusFailed (total_workers s)\<rparr>
    \<and> results (fst (fst (on_all_batch_workers_complete ev (s, files)))) = [])"
  by (simp add: on_all_batch_workers_complete_def Let_def check_saved_files_results)

theorem finalize_decision_witness:
  "batch_results done_edit_batch \<noteq> []
   \<and> snd (on_all_batch_workers_complete env0 (done_edit_batch, banana_files)) =
        \<lparr>shown = ShownResults [blob 1], status = StatusSuccess 1\<rparr>
   \<and> batch_results failed_edit_batch = [] \<and> truthy (selected_image_path failed_edit_batch)
   \<and> check_saved_files failed_edit_batch env0 banana_files
        = [(BananaDir, ''banana_1sep_002.png''), (BananaDir, ''banana_1sep_001.png'')]
   \<and> snd (on_all_batch_workers_complete env0 (failed_edit_batch, banana_files)) =
        \<lparr>shown = ShownSavedFiles [(BananaDir, ''banana_1sep_002.png''), (BananaDir, ''banana_1sep_001.png'')],
         status = StatusMixed 2 2\<rparr>
   \<and> check_saved_files failed_edit_batch env0 no_files = []
   \<and> snd (on_all_batch_workers_complete env0 (failed_edit_batch, no_files)) =
        \<lparr>shown = ShownMock 2, status = StatusFailed 2\<rparr>"
proof -
  have b1: "batch_results done_edit_batch = [blob 1]"
    by (simp add: done_edit_batch_def)
  have b2: "batch_results failed_edit_batch = []" "truthy (selected_image_path failed_edit_batch)"
      "total_workers failed_edit_batch = 2"
    by (simp_all add: failed_edit_batch_def new_editor_def truthy_def)
  have c1: "check_saved_files failed_edit_batch env0 banana_files
        = [(BananaDir, ''banana_1sep_002.png''), (BananaDir, ''banana_1sep_001.png'')]"
    by code_simp
  have c2: "check_saved_files failed_edit_batch env0 no_files = []"
    by (simp add: check_saved_files_eq no_files_def)
  from finalize_decision [of done_edit_batch env0 banana_files] b1
  have r1: "snd (on_all_batch_workers_complete env0 (done_edit_batch, banana_files)) =
        \<lparr>shown = ShownResults [blob 1], status = StatusSuccess 1\<rparr>"
    by simp
  from finalize_decision [of failed_edit_batch env0 banana_files] b2 c1
  have r2: "snd (on_all_batch_workers_complete env0 (failed_edit_batch, banana_files)) =
        \<lparr>shown = ShownSavedFiles [(BananaDir, ''banana_1sep_002.png''), (BananaDir, ''banana_1sep_001.png'')],
         status = StatusMixed 2 2\<rparr>"
    by simp
  from finalize_decision [of failed_edit_batch env0 no_files] b2 c2
  have r3: "snd (on_all_batch_workers_complete env0 (failed_edit_batch, no_files)) =
        \<lparr>shown = ShownMock 2, status = StatusFailed 2\<rparr>"
    by simp
  from b1 b2 c1 c2 r1 r2 r3 show ?thesis by simp
qed

text \<open>
  C1 as stated fails. With no source image selected, both workers failed and two files of
  today's bucket written seconds ago in the banana directory (which is the target save
  directory, and where the scan would return both), the finalize step does not scan and
  reports the failure status. And a batch in which one of two workers failed gets the
  same status as a batch in which both succeeded.
\<close>

theorem finalize_decision_counterexample:
  "batch_results failed_text_batch = []
   \<and> target_dir failed_text_batch = BananaDir
   \<and> map snd (check_saved_files failed_text_batch env0 banana_files)
       = [''banana_1sep_002.png'', ''banana_1sep_001.png'']
   \<and> snd (on_all_batch_workers_complete env0 (failed_text_batch, banana_files))
       = \<lparr>shown = ShownMock 2, status = StatusFailed 2\<rparr>
   \<and> map (status \<circ> snd) (snd (deliver env0 (start_batch new_editor 2, no_files)
         [Finished [blob 1, blob 2], Failed ''blocked'']))
       = [StatusSuccess 2]
   \<and> map (status \<circ> snd) (snd (deliver env0 (start_batch new_editor 2, no_files)
         [Finished [blob 1], Finished [blob 2]]))
       = [StatusSuccess 2]"
  by code_simp

text \<open>
  C9. When the accumulated result list is empty and no source image path is selected
  (\<^verbatim>\<open>None\<close> or the empty string), the finalize step reports the failure status and leaves
  the file system as it is, whatever the save directory holds: its result does not
  depend on the directory contents, so the scan is not consulted.
\<close>

theorem no_scan_without_source_image:
  assumes "batch_results s = []" and "\<not> truthy (selected_image_path s)"
  shows "on_all_batch_workers_complete ev (s, files) =
     ((s\<lparr>results := [], batch_results := [], completed_workers := 0, total_workers := 0\<rparr>, files),
      \<lparr>shown = (if 1 < total_workers s then ShownMock (total_workers s) else ShownNothing),
       status = StatusFailed (total_workers s)\<rparr>)"
  using assms by (simp add: on_all_batch_workers_complete_def Let_def)

theorem no_scan_without_source_image_witness:
  "batch_results (start_batch new_editor 3\<lparr>completed_workers := 3\<rparr>) = []
   \<and> \<not> truthy (selected_image_path (start_batch new_editor 3\<lparr>completed_workers := 3\<rparr>))
   \<and> map snd (check_saved_files (start_batch new_editor 3\<lparr>completed_workers := 3\<rparr>) env0 banana_files)
       = [''banana_1sep_002.png'', ''banana_1sep_001.png'']
   \<and> snd (on_all_batch_workers_complete env0 (start_batch new_editor 3\<lparr>completed_workers := 3\<rparr>, banana_files))
       = \<lparr>shown = ShownMock 3, status = StatusFailed 3\<rparr>"
proof -
  let ?s = "start_batch new_editor 3\<lparr>completed_workers := 3\<rparr>"
  have h1: "batch_results ?s = []" and h2: "\<not> truthy (selected_image_path ?s)"
    and t: "total_workers ?s = 3"
    by (simp_all add: start_batch_def new_editor_def truthy_def)
  have c: "map snd (check_saved_files ?s env0 banana_files)
       = [''banana_1sep_002.png'', ''banana_1sep_001.png'']"
    by code_simp
  from no_scan_without_source_image [OF h1 h2, of env0 banana_files] h1 h2 c t
  show ?thesis by simp
qed

subsection \<open>Disk reconciliation\<close>

lemma filter_take_sorted:
  assumes "sorted (map f ys)" and "\<And>x y. f x \<le> f y \<Longrightarrow> P y \<Longrightarrow> P x"
  shows "filter P (take n ys) = take n (filter P ys)"
  using assms(1)
proof (induction ys arbitrary: n)
  case Nil
  show ?case by simp
next
  case (Cons y ys)
  from Cons.prems have sorted: "sorted (map f ys)" and le: "\<forall>z\<in>set ys. f y \<le> f z"
    by simp_all
  show ?case
  proof (cases "P y")
    case True
    with Cons.IH [OF sorted] show ?thesis by (cases n) simp_all
  next
    case False
    with le assms(2) have none: "\<forall>z\<in>set ys. \<not> P z" by blast
    then have "filter P ys = []" by (simp add: filter_empty_conv)
    moreover from none have "filter P (take m ys) = []" for m
      by (auto simp: filter_empty_conv dest: in_set_takeD)
    ultimately show ?thesis using False by (cases n) simp_all
  qed
qed

lemma recent_newest_first:
  "filter (is_recent t) (take n (newest_first d)) = take n (newest_first (filter (is_recent t) d))"
proof -
  have "filter (is_recent t) (take n (sort_key (\<lambda>e. - st_mtime e) d))
      = take n (filter (is_recent t) (sort_key (\<lambda>e. - st_mtime e) d))"
    by (rule filter_take_sorted [where f = "\<lambda>e. - st_mtime e"]) (auto simp: is_recent_def)
  then show ?thesis by (simp add: newest_first_def filter_sort)
qed

lemma sorted_wrt_newest_first: "sorted_wrt (\<lambda>a b. st_mtime b \<le> st_mtime a) (newest_first d)"
proof -
  have "sorted (map (\<lambda>e. - st_mtime e) (newest_first d))"
    by (simp add: newest_first_def)
  then show ?thesis by (simp add: sorted_map)
qed

text \<open>
  C3. The scan returns the files of the target save directory that match the bucket
  pattern and were modified less than 300 seconds before now, newest first, cut to
  \<^verbatim>\<open>total_workers\<close>: exactly min(total_workers, number of matching recent files) of them,
  in descending order of modification time, and none that is 300 seconds old or older.
\<close>

theorem scan_returns_newest_recent:
  "check_saved_files s ev files =
     map (\<lambda>e. (target_dir s, e_name e))
       (take (total_workers s) (newest_first
          (filter (\<lambda>e. glob_match (date_str ev) (e_name e) \<and> is_recent (env_time ev) e)
             (listing files (target_dir s)))))
   \<and> length (check_saved_files s ev files) =
       min (total_workers s)
         (length (filter (\<lambda>e. glob_match (date_str ev) (e_name e) \<and> is_recent (env_time ev) e)
            (listing files (target_dir s))))
   \<and> sorted_wrt (\<lambda>a b. st_mtime b \<le> st_mtime a)
       (take (total_workers s) (newest_first
          (filter (\<lambda>e. glob_match (date_str ev) (e_name e) \<and> is_recent (env_time ev) e)
             (listing files (target_dir s)))))
   \<and> list_all (\<lambda>e. env_time ev - st_mtime e < 300)
       (take (total_workers s) (newest_first
          (filter (\<lambda>e. glob_match (date_str ev) (e_name e) \<and> is_recent (env_time ev) e)
             (listing files (target_dir s)))))"
proof -
  let ?P = "\<lambda>e. glob_match (date_str ev) (e_name e) \<and> is_recent (env_time ev) e"
  let ?d = "listing files (target_dir s)"
  let ?ents = "take (total_workers s) (newest_first (filter ?P ?d))"
  have flt: "filter (is_recent (env_time ev)) (filter (\<lambda>e. glob_match (date_str ev) (e_name e)) d)
      = filter ?P d" for d
    by (simp add: conj_commute)
  have eq: "check_saved_files s ev files = map (\<lambda>e. (target_dir s, e_name e)) ?ents"
  proof (cases "files (target_dir s)")
    case None
    then show ?thesis
      by (simp add: check_saved_files_def listing_def newest_first_def)
  next
    case (Some d)
    then show ?thesis
      by (simp add: check_saved_files_def Let_def listing_def recent_newest_first flt)
  qed
  have len: "length ?ents = min (total_workers s) (length (filter ?P ?d))"
    by (simp add: newest_first_def min.commute)
  have srt: "sorted_wrt (\<lambda>a b. st_mtime b \<le> st_mtime a) ?ents"
    by (rule sorted_wrt_take) (rule sorted_wrt_newest_first)
  have "set ?ents \<subseteq> set (filter ?P ?d)"
    using set_take_subset [of "total_workers s" "newest_first (filter ?P ?d)"]
    by (simp add: newest_first_def)
  then have rec: "list_all (\<lambda>e. env_time ev - st_mtime e < 300) ?ents"
    by (auto simp: list_all_iff is_recent_def)
  from eq len srt rec show ?thesis by simp
qed

theorem scan_returns_newest_recent_witness:
  "total_workers failed_edit_batch = 2
   \<and> length (filter (\<lambda>e. glob_match (date_str env0) (e_name e) \<and> is_recent (env_time env0) e)
        (listing mixed_files (target_dir failed_edit_batch))) = 3
   \<and> check_saved_files failed_edit_batch env0 mixed_files
       = [(BananaDir, ''banana_1sep_004.png''), (BananaDir, ''banana_1sep_003.png'')]
   \<and> length (check_saved_files failed_edit_batch env0 mixed_files) = min 2 3"
proof -
  have t: "total_workers failed_edit_batch = 2"
    by (simp add: failed_edit_batch_def new_editor_def)
  have n: "length (filter (\<lambda>e. glob_match (date_str env0) (e_name e) \<and> is_recent (env_time env0) e)
        (listing mixed_files (target_dir failed_edit_batch))) = 3"
    by code_simp
  have v: "map (\<lambda>e. (target_dir failed_edit_batch, e_name e))
       (take 2 (newest_first
          (filter (\<lambda>e. glob_match (date_str env0) (e_name e) \<and> is_recent (env_time env0) e)
             (listing mixed_files (target_dir failed_edit_batch)))))
       = [(BananaDir, ''banana_1sep_004.png''), (BananaDir, ''banana_1sep_003.png'')]"
    by code_simp
  from scan_returns_newest_recent [of failed_edit_batch env0 mixed_files]
  show ?thesis unfolding t n v by simp
qed

subsection \<open>Decimal numbers and file names\<close>

lemma digit_val_digit_char: "d < 10 \<Longrightarrow> digit_val (digit_char d) = Some d"
proof -
  assume "d < 10"
  moreover have "list_all (\<lambda>d. digit_val (digit_char d) = Some d) [0..<10]"
    by code_simp
  ultimately show ?thesis by (simp add: list_all_iff)
qed

lemma is_digit_not_special:
  assumes "is_digit c"
  shows "c \<noteq> CHR ''_''" "c \<noteq> CHR ''-''" "c \<noteq> CHR ''+''" "c \<noteq> CHR ''.''" "\<not> is_space c"
  using assms by (auto simp: is_digit_def digit_val_def is_space_def Let_def split: if_splits)

lemma is_digit_digit_char: "d < 10 \<Longrightarrow> is_digit (digit_char d)"
  by (simp add: is_digit_def digit_val_digit_char)

lemma dec_nonempty: "dec n \<noteq> []"
  by (subst dec.simps) simp

lemma dec_digits: "list_all is_digit (dec n)"
proof (induction n rule: dec.induct)
  case (1 n)
  show ?case
  proof (cases "10 \<le> n")
    case True
    with 1 show ?thesis by (subst dec.simps) (simp add: is_digit_digit_char)
  next
    case False
    then show ?thesis by (subst dec.simps) (simp add: is_digit_digit_char)
  qed
qed

lemma digits_val_snoc:
  "digits_val (ds @ [c]) = 10 * digits_val ds + (case digit_val c of Some d \<Rightarrow> d | None \<Rightarrow> 0)"
  by (simp add: digits_val_def)

lemma digits_val_dec: "digits_val (dec n) = n"
proof (induction n rule: dec.induct)
  case (1 n)
  show ?case
  proof (cases "10 \<le> n")
    case True
    with 1 have "digits_val (dec (n div 10)) = n div 10" by simp
    with True show ?thesis
      by (subst dec.simps) (simp add: digits_val_snoc digit_val_digit_char)
  next
    case False
    then show ?thesis
      by (subst dec.simps) (simp add: digits_val_def digit_val_digit_char)
  qed
qed

lemma digits_val_zero_Cons: "digits_val (CHR ''0'' # ds) = digits_val ds"
  by (simp add: digits_val_def digit_val_def)

lemma digits_val_zeros: "digits_val (replicate k (CHR ''0'') @ ds) = digits_val ds"
  by (induction k) (simp_all add: digits_val_zero_Cons)

lemma zfill_dec_digits: "list_all is_digit (zfill w (dec n))" "zfill w (dec n) \<noteq> []"
proof -
  have "is_digit (CHR ''0'')" by (simp add: is_digit_def digit_val_def)
  then show "list_all is_digit (zfill w (dec n))"
    using dec_digits [of n] by (auto simp: zfill_def list_all_iff)
  show "zfill w (dec n) \<noteq> []" by (simp add: zfill_def dec_nonempty)
qed

lemma unsigned_int_zfill_dec: "unsigned_int (zfill w (dec n)) = Some n"
  using zfill_dec_digits [of w n]
  by (simp add: unsigned_int_def) (simp add: zfill_def digits_val_zeros digits_val_dec)

lemma strip_id:
  assumes "s \<noteq> []" "\<not> is_space (hd s)" "\<not> is_space (last s)"
  shows "strip s = s"
proof -
  from assms have "dropWhile is_space s = s" by (cases s) simp_all
  moreover from assms have "dropWhile is_space (rev s) = rev s"
    by (cases s rule: rev_cases) simp_all
  ultimately show ?thesis by (simp add: strip_def)
qed

lemma py_int_fmt03d: "py_int (fmt03d n) = Some n"
proof (cases "n < 0")
  case True
  let ?ds = "zfill 2 (dec (nat (- n)))"
  have "last ?ds \<in> set ?ds" using zfill_dec_digits(2) by simp
  then have "is_digit (last ?ds)" using zfill_dec_digits(1) [of 2 "nat (- n)"]
    by (simp add: list_all_iff)
  then have "\<not> is_space (last (CHR ''-'' # ?ds))"
    using zfill_dec_digits(2) [of 2 "nat (- n)"] by (simp add: is_digit_not_special)
  moreover have "\<not> is_space (CHR ''-'')" by (simp add: is_space_def)
  ultimately have "strip (CHR ''-'' # ?ds) = CHR ''-'' # ?ds"
    by (intro strip_id) simp_all
  with True show ?thesis
    by (simp add: py_int_def fmt03d_def unsigned_int_zfill_dec)
next
  case False
  let ?ds = "zfill 3 (dec (nat n))"
  obtain c r where cr: "?ds = c # r" using zfill_dec_digits(2) [of 3 "nat n"] by (cases ?ds) auto
  have dig: "list_all is_digit ?ds" by (rule zfill_dec_digits)
  from cr dig have c: "is_digit c" by simp
  have "last ?ds \<in> set ?ds" using zfill_dec_digits(2) by simp
  with dig have "is_digit (last ?ds)" by (simp add: list_all_iff)
  with c cr have "strip ?ds = ?ds"
    by (intro strip_id) (simp_all add: is_digit_not_special)
  with False cr c unsigned_int_zfill_dec [of 3 "nat n"] show ?thesis
    by (simp add: py_int_def fmt03d_def is_digit_not_special)
qed


lemma fmt03d_no_underscore: "CHR ''_'' \<notin> set (fmt03d n)"
proof -
  have "CHR ''_'' \<notin> set (zfill w (dec m))" for w m
    using zfill_dec_digits(1) [of w m] is_digit_not_special(1) by (auto simp: list_all_iff)
  then show ?thesis by (simp add: fmt03d_def)
qed

lemma rfind_dot_png: "rfind (CHR ''.'') (x @ ''.png'') = Some (length x)"
  by (simp add: rfind_def)

lemma stem_png: "x \<noteq> [] \<Longrightarrow> stem (x @ ''.png'') = x"
  by (simp add: stem_def rfind_dot_png del: append_assoc)

lemma split_on_notin: "c \<notin> set a \<Longrightarrow> split_on c a = [a]"
  by (induction a) auto

lemma split_on_append: "c \<notin> set a \<Longrightarrow> split_on c (a @ c # b) = a # split_on c b"
  by (induction a) auto

lemma stem_file_name: "stem (file_name ds n) = ''banana_'' @ ds @ ''_'' @ fmt03d n"
proof -
  have "stem (file_name ds n) = stem ((''banana_'' @ ds @ ''_'' @ fmt03d n) @ ''.png'')"
    by (simp add: file_name_def)
  also have "\<dots> = ''banana_'' @ ds @ ''_'' @ fmt03d n"
    by (rule stem_png) simp
  finally show ?thesis .
qed

lemma file_name_parts:
  assumes "CHR ''_'' \<notin> set ds"
  shows "split_on (CHR ''_'') (stem (file_name ds n)) = [''banana'', ds, fmt03d n]"
proof -
  have "split_on (CHR ''_'') (ds @ CHR ''_'' # fmt03d n) = [ds, fmt03d n]"
    using assms fmt03d_no_underscore [of n] by (simp add: split_on_append split_on_notin)
  moreover have "split_on (CHR ''_'') (''banana'' @ CHR ''_'' # (ds @ CHR ''_'' # fmt03d n))
      = ''banana'' # split_on (CHR ''_'') (ds @ CHR ''_'' # fmt03d n)"
    by (rule split_on_append) simp
  ultimately show ?thesis by (simp add: stem_file_name)
qed

lemma glob_match_file_name: "glob_match ds (file_name ds n)"
  by (simp add: glob_match_def file_name_def)

lemma extract_numbers_file_name:
  "CHR ''_'' \<notin> set ds \<Longrightarrow> extract_numbers (file_name ds n # rest) = n # extract_numbers rest"
  by (simp add: file_name_parts py_int_fmt03d)

lemma extract_numbers_file_names:
  "CHR ''_'' \<notin> set ds \<Longrightarrow> extract_numbers (map (file_name ds) ns) = ns"
  by (induction ns) (simp_all add: extract_numbers_file_name del: extract_numbers.simps(2))

lemma file_name_inject:
  assumes "CHR ''_'' \<notin> set ds" and "file_name ds a = file_name ds b"
  shows "a = b"
proof -
  from assms(1) have "extract_numbers [file_name ds a] = [a]" "extract_numbers [file_name ds b] = [b]"
    by (simp_all add: extract_numbers_file_name del: extract_numbers.simps(2))
  with assms(2) show ?thesis by simp
qed

lemma extract_numbers_mono: "set (extract_numbers rest) \<subseteq> set (extract_numbers (f # rest))"
  by (auto simp: Let_def split: option.splits)

lemma extract_numbers_member:
  assumes "CHR ''_'' \<notin> set ds"
  shows "file_name ds k \<in> set names \<Longrightarrow> k \<in> set (extract_numbers names)"
proof (induction names)
  case Nil
  then show ?case by simp
next
  case (Cons f names)
  show ?case
  proof (cases "f = file_name ds k")
    case True
    with assms show ?thesis
      by (simp add: extract_numbers_file_name del: extract_numbers.simps(2))
  next
    case False
    with Cons have "k \<in> set (extract_numbers names)" by simp
    with extract_numbers_mono show ?thesis by blast
  qed
qed

lemma py_max_Max:
  assumes "xs \<noteq> []"
  shows "py_max xs = Max (set xs)"
proof -
  from assms obtain a list where xs: "xs = a # list" by (cases xs) auto
  have "fold max list a = Max (set (a # list))" by (rule Max.set_eq_fold [symmetric])
  with xs show ?thesis by simp
qed

lemma date_str_no_underscore: "CHR ''_'' \<notin> set (date_str ev)"
proof -
  have "CHR ''_'' \<notin> set (dec d)" for d
    using dec_digits [of d] is_digit_not_special(1) by (auto simp: list_all_iff)
  moreover have "CHR ''_'' \<notin> set (month_abbr m)" for m by (cases m) simp_all
  ultimately show ?thesis by (simp add: date_str_def date_str_of_def)
qed

lemma candidate_free:
  assumes ds: "CHR ''_'' \<notin> set ds" and d: "files save_dir = Some d"
    and k: "get_next_file_number files save_dir ds \<le> k"
  shows "\<not> path_exists d (file_name ds k)"
proof
  assume "path_exists d (file_name ds k)"
  then have "file_name ds k \<in> set (glob_names files save_dir ds)"
    by (simp add: path_exists_def glob_names_def d glob_match_file_name)
  then have ne: "glob_names files save_dir ds \<noteq> []"
    and mem: "k \<in> set (extract_numbers (glob_names files save_dir ds))"
    using extract_numbers_member [OF ds] by auto
  from mem have "k \<le> Max (set (extract_numbers (glob_names files save_dir ds)))" by simp
  moreover from ne mem have "get_next_file_number files save_dir ds
      = Max (set (extract_numbers (glob_names files save_dir ds))) + 1"
    by (auto simp: get_next_file_number_def Let_def py_max_Max)
  ultimately show False using k by simp
qed

subsection \<open>Sequential naming\<close>

text \<open>
  C4. \<^verbatim>\<open>get_next_file_number\<close> returns 1 when no file of the directory matches the
  bucket pattern (and when no matching file has a numeric third field); otherwise it
  returns the maximum of the parsed numbers plus one. For a directory whose matching files
  are the names the namer builds for the numbers \<open>ns\<close>, that is the maximum of \<open>ns\<close>
  plus one: the numbers 1, 2, 3 and 5 yield 6, gaps are not filled.
\<close>

theorem next_number_is_max_plus_one:
  "(glob_names files save_dir ds = [] \<longrightarrow> get_next_file_number files save_dir ds = 1)
   \<and> (extract_numbers (glob_names files save_dir ds) = [] \<longrightarrow>
        get_next_file_number files save_dir ds = 1)
   \<and> (extract_numbers (glob_names files save_dir ds) \<noteq> [] \<longrightarrow>
        get_next_file_number files save_dir ds
          = Max (set (extract_numbers (glob_names files save_dir ds))) + 1)
   \<and> (CHR ''_'' \<notin> set ds \<and> ns \<noteq> [] \<and> glob_names files save_dir ds = map (file_name ds) ns \<longrightarrow>
        get_next_file_number files save_dir ds = Max (set ns) + 1)"
proof -
  have none: "get_next_file_number files save_dir ds = 1"
    if "extract_numbers (glob_names files save_dir ds) = []"
    using that by (simp add: get_next_file_number_def Let_def)
  have some: "get_next_file_number files save_dir ds
          = Max (set (extract_numbers (glob_names files save_dir ds))) + 1"
    if "extract_numbers (glob_names files save_dir ds) \<noteq> []"
  proof -
    from that have "glob_names files save_dir ds \<noteq> []" by auto
    with that show ?thesis
      by (simp add: get_next_file_number_def Let_def py_max_Max)
  qed
  have named: "get_next_file_number files save_dir ds = Max (set ns) + 1"
    if "CHR ''_'' \<notin> set ds" "ns \<noteq> []" "glob_names files save_dir ds = map (file_name ds) ns"
  proof -
    from that have "extract_numbers (glob_names files save_dir ds) = ns"
      by (simp add: extract_numbers_file_names)
    with that(2) some show ?thesis by simp
  qed
  from none some named show ?thesis by simp
qed

theorem next_number_is_max_plus_one_witness:
  "CHR ''_'' \<notin> set ''1sep'' \<and> [3, 1, 5, 2] \<noteq> ([] :: int list)
   \<and> glob_names numbered_files BananaDir ''1sep'' = map (file_name ''1sep'') [3, 1, 5, 2]
   \<and> get_next_file_number numbered_files BananaDir ''1sep'' = 6
   \<and> glob_names no_files BananaDir ''1sep'' = []
   \<and> get_next_file_number no_files BananaDir ''1sep'' = 1
   \<and> length (glob_names unparsed_files BananaDir ''1sep'') = 2
   \<and> extract_numbers (glob_names unparsed_files BananaDir ''1sep'') = []
   \<and> get_next_file_number unparsed_files BananaDir ''1sep'' = 1"
proof -
  have x: "length (glob_names unparsed_files BananaDir ''1sep'') = 2"
      "extract_numbers (glob_names unparsed_files BananaDir ''1sep'') = []"
    by code_simp+
  have g: "glob_names numbered_files BananaDir ''1sep'' = map (file_name ''1sep'') [3, 1, 5, 2]"
    by code_simp
  have e: "glob_names no_files BananaDir ''1sep'' = []"
    by (simp add: glob_names_def no_files_def)
  have u: "CHR ''_'' \<notin> set ''1sep''" by simp
  from next_number_is_max_plus_one [of numbered_files BananaDir "''1sep''" "[3, 1, 5, 2]"] g u
  have "get_next_file_number numbered_files BananaDir ''1sep'' = 6" by simp
  moreover from next_number_is_max_plus_one [of no_files BananaDir "''1sep''" "[]"] e
  have "get_next_file_number no_files BananaDir ''1sep'' = 1" by simp
  moreover from next_number_is_max_plus_one [of unparsed_files BananaDir "''1sep''" "[]"] x(2)
  have "get_next_file_number unparsed_files BananaDir ''1sep'' = 1" by simp
  ultimately show ?thesis using g e u x by simp
qed

subsection \<open>The collision loop\<close>

lemma free_counter_bounds:
  "c0 \<le> 1000 \<Longrightarrow>
   c0 \<le> free_counter d ds base c0 \<and> free_counter d ds base c0 \<le> 1000
   \<and> (\<forall>k. c0 \<le> k \<and> k < free_counter d ds base c0 \<longrightarrow> path_exists d (file_name ds (base + int k)))
   \<and> (free_counter d ds base c0 < 1000 \<longrightarrow>
        \<not> path_exists d (file_name ds (base + int (free_counter d ds base c0))))"
proof (induction d ds base c0 rule: free_counter.induct)
  case (1 d ds base counter)
  show ?case
  proof (cases "path_exists d (file_name ds (base + int counter)) \<and> counter < 1000")
    case True
    with "1.IH" have ih: "counter + 1 \<le> free_counter d ds base (counter + 1)
      \<and> free_counter d ds base (counter + 1) \<le> 1000
      \<and> (\<forall>k. counter + 1 \<le> k \<and> k < free_counter d ds base (counter + 1) \<longrightarrow>
            path_exists d (file_name ds (base + int k)))
      \<and> (free_counter d ds base (counter + 1) < 1000 \<longrightarrow>
            \<not> path_exists d (file_name ds (base + int (free_counter d ds base (counter + 1)))))"
      by simp
    from True have eq: "free_counter d ds base counter = free_counter d ds base (counter + 1)"
      by (subst free_counter.simps) simp
    have "path_exists d (file_name ds (base + int k))"
      if "counter \<le> k" "k < free_counter d ds base (counter + 1)" for k
    proof (cases "k = counter")
      case True
      with \<open>path_exists d (file_name ds (base + int counter)) \<and> counter < 1000\<close> show ?thesis by simp
    next
      case False
      with that ih show ?thesis by simp
    qed
    with ih show ?thesis unfolding eq by auto
  next
    case False
    then have eq: "free_counter d ds base counter = counter"
      by (subst free_counter.simps) auto
    from False "1.prems" show ?thesis unfolding eq by auto
  qed
qed

lemma allocate_free:
  "\<not> path_exists d (file_name ds base) \<Longrightarrow> allocate d ds base = file_name ds base"
  by (simp add: allocate_def free_counter.simps [of d ds base 0])

subsection \<open>Auto-save\<close>

lemma write_file_new:
  "\<not> path_exists d nm \<Longrightarrow> write_file d nm t b = d @ [\<lparr>e_name = nm, st_mtime = t, e_data = b\<rparr>]"
  by (simp add: write_file_def)

lemma save_loop_fresh:
  assumes "\<forall>k\<ge>start + int i. \<not> path_exists d (file_name (date_str ev) k)"
  shows "save_loop ev save_dir start i bs d saved =
     (d @ map (saved_entry ev start) (enumerate i (takeWhile (storable ev) bs)),
      saved @ map (saved_path ev save_dir start) [i..<i + length (takeWhile (storable ev) bs)],
      list_all (storable ev) bs)"
  using assms
proof (induction bs arbitrary: i d saved)
  case Nil
  show ?case by simp
next
  case (Cons b bs)
  show ?case
  proof (cases "storable ev b")
    case False
    then show ?thesis by (auto simp: storable_def Let_def)
  next
    case True
    let ?nm = "file_name (date_str ev) (start + int i)"
    let ?d1 = "d @ [saved_entry ev start (i, b)]"
    from Cons.prems have free: "\<not> path_exists d ?nm" by simp
    then have alloc: "allocate d (date_str ev) (start + int i) = ?nm" by (rule allocate_free)
    from free have wr: "write_file d ?nm (env_time ev) (png_of ev b) = ?d1"
      by (simp add: write_file_new saved_entry_def)
    have inv: "\<forall>k\<ge>start + int (Suc i). \<not> path_exists ?d1 (file_name (date_str ev) k)"
    proof (intro allI impI)
      fix k assume k: "start + int (Suc i) \<le> k"
      then have "\<not> path_exists d (file_name (date_str ev) k)" using Cons.prems by simp
      moreover from k have "k \<noteq> start + int i" by simp
      then have "file_name (date_str ev) k \<noteq> ?nm"
        using file_name_inject [OF date_str_no_underscore] by blast
      ultimately show "\<not> path_exists ?d1 (file_name (date_str ev) k)"
        by (simp add: path_exists_def saved_entry_def)
    qed
    have "save_loop ev save_dir start i (b # bs) d saved
        = save_loop ev save_dir start (Suc i) bs ?d1 (saved @ [(save_dir, ?nm)])"
      using True by (simp add: alloc wr Let_def storable_def)
    also note Cons.IH [OF inv]
    finally have run: "save_loop ev save_dir start i (b # bs) d saved =
       (?d1 @ map (saved_entry ev start) (enumerate (Suc i) (takeWhile (storable ev) bs)),
        (saved @ [(save_dir, ?nm)]) @ map (saved_path ev save_dir start)
           [Suc i..<Suc i + length (takeWhile (storable ev) bs)],
        list_all (storable ev) bs)" .
    have u: "[i..<i + length (takeWhile (storable ev) (b # bs))]
        = i # [Suc i..<Suc i + length (takeWhile (storable ev) bs)]"
      using True by (subst upt_rec) simp
    have p: "(save_dir, ?nm) = saved_path ev save_dir start i"
      by (simp add: saved_path_def)
    show ?thesis unfolding run u p using True by simp
  qed
qed


lemma save_loop_Cons:
  "save_loop ev save_dir start i (b # bs) d saved =
     (if storable ev b
      then save_loop ev save_dir start (Suc i) bs
             (write_file d (allocate d (date_str ev) (start + int i)) (env_time ev) (png_of ev b))
             (saved @ [(save_dir, allocate d (date_str ev) (start + int i))])
      else (d, saved, False))"
  by (auto simp: storable_def Let_def)

lemma save_loop_append:
  "save_loop ev save_dir start i (xs @ ys) d saved =
     (case save_loop ev save_dir start i xs d saved of
        (d', saved', ok) \<Rightarrow>
          if ok then save_loop ev save_dir start (i + length xs) ys d' saved'
          else (d', saved', False))"
proof (induction xs arbitrary: i d saved)
  case Nil
  show ?case by simp
next
  case (Cons x xs)
  show ?case
    unfolding append_Cons save_loop_Cons by (simp add: Cons.IH split: prod.splits)
qed

lemma save_loop_extends:
  "\<exists>d' extra. save_loop ev save_dir start i bs d saved
       = (d', saved @ extra, list_all (storable ev) bs)
     \<and> length extra = length (takeWhile (storable ev) bs)"
proof (induction bs arbitrary: i d saved)
  case Nil
  show ?case by simp
next
  case (Cons b bs)
  show ?case
  proof (cases "storable ev b")
    case False
    then show ?thesis unfolding save_loop_Cons by simp
  next
    case True
    let ?nm = "allocate d (date_str ev) (start + int i)"
    from Cons.IH [of "Suc i" "write_file d ?nm (env_time ev) (png_of ev b)" "saved @ [(save_dir, ?nm)]"]
    obtain d' extra where
      "save_loop ev save_dir start (Suc i) bs (write_file d ?nm (env_time ev) (png_of ev b))
           (saved @ [(save_dir, ?nm)])
         = (d', (saved @ [(save_dir, ?nm)]) @ extra, list_all (storable ev) bs)"
      and "length extra = length (takeWhile (storable ev) bs)"
      by blast
    with True show ?thesis
      unfolding save_loop_Cons by (intro exI [of _ d'] exI [of _ "(save_dir, ?nm) # extra"]) simp
  qed
qed

lemma takeWhile_prefix_facts:
  assumes "j < length (takeWhile P bs)"
  shows "j < length bs" "P (bs ! j)" "list_all P (take j bs)" "list_all P (take (Suc j) bs)"
proof -
  have bs: "bs = takeWhile P bs @ dropWhile P bs" by simp
  from assms show j: "j < length bs"
    using length_takeWhile_le [of P bs] by simp
  from assms have "takeWhile P bs ! j = bs ! j" by (rule takeWhile_nth)
  moreover from assms have "takeWhile P bs ! j \<in> set (takeWhile P bs)" by simp
  ultimately show "P (bs ! j)" by (auto dest: set_takeWhileD)
  have tk: "take m bs = take m (takeWhile P bs)" if "m \<le> length (takeWhile P bs)" for m
    using that take_append [of m "takeWhile P bs" "dropWhile P bs"] by simp
  have "list_all P (take m (takeWhile P bs))" for m
    by (auto simp: list_all_iff dest: in_set_takeD set_takeWhileD)
  with tk [of j] tk [of "Suc j"] assms
  show "list_all P (take j bs)" "list_all P (take (Suc j) bs)" by simp_all
qed

lemma save_loop_position:
  assumes j: "j < length (takeWhile (storable ev) bs)"
  shows "\<exists>c\<le>1000.
           fst (snd (save_loop ev save_dir start 0 bs d [])) ! j
             = (save_dir, file_name (date_str ev) (start + int j + int c))
         \<and> (\<forall>k<c. path_exists (fst (save_loop ev save_dir start 0 (take j bs) d []))
                     (file_name (date_str ev) (start + int j + int k)))
         \<and> (c < 1000 \<longrightarrow>
              \<not> path_exists (fst (save_loop ev save_dir start 0 (take j bs) d []))
                  (file_name (date_str ev) (start + int j + int c)))
         \<and> fst (save_loop ev save_dir start 0 (take (Suc j) bs) d [])
             = write_file (fst (save_loop ev save_dir start 0 (take j bs) d []))
                 (file_name (date_str ev) (start + int j + int c)) (env_time ev)
                 (png_of ev (bs ! j))"
proof -
  note facts = takeWhile_prefix_facts [OF j]
  let ?P = "storable ev"
  from save_loop_extends [of ev save_dir start 0 "take j bs" d "[]"] facts(3)
  obtain dj pj where runj: "save_loop ev save_dir start 0 (take j bs) d [] = (dj, pj, True)"
    and lenj: "length pj = length (takeWhile ?P (take j bs))"
    by auto
  from facts(3) have "takeWhile ?P (take j bs) = take j bs" by (simp add: list_all_iff)
  with lenj facts(1) have lenj: "length pj = j" by simp
  let ?c = "free_counter dj (date_str ev) (start + int j) 0"
  let ?nm = "allocate dj (date_str ev) (start + int j)"
  have nm: "?nm = file_name (date_str ev) (start + int j + int ?c)"
    by (simp add: allocate_def)
  from free_counter_bounds [of 0 dj "date_str ev" "start + int j"]
  have c: "?c \<le> 1000"
    and taken: "\<forall>k<?c. path_exists dj (file_name (date_str ev) (start + int j + int k))"
    and free: "?c < 1000 \<longrightarrow> \<not> path_exists dj (file_name (date_str ev) (start + int j + int ?c))"
    by simp_all
  have sj: "take (Suc j) bs = take j bs @ [bs ! j]"
    using facts(1) by (rule take_Suc_conv_app_nth)
  have run1: "save_loop ev save_dir start 0 (take (Suc j) bs) d []
      = (write_file dj ?nm (env_time ev) (png_of ev (bs ! j)), pj @ [(save_dir, ?nm)], True)"
    unfolding sj save_loop_append runj using facts(1,2) lenj
    by (simp add: save_loop_Cons del: save_loop.simps(2))
  have "bs = take (Suc j) bs @ drop (Suc j) bs" by simp
  then have "save_loop ev save_dir start 0 bs d []
      = save_loop ev save_dir start (0 + length (take (Suc j) bs)) (drop (Suc j) bs)
          (write_file dj ?nm (env_time ev) (png_of ev (bs ! j))) (pj @ [(save_dir, ?nm)])"
    using save_loop_append [of ev save_dir start 0 "take (Suc j) bs" "drop (Suc j) bs" d "[]"]
    by (simp add: run1)
  with save_loop_extends [of ev save_dir start "0 + length (take (Suc j) bs)" "drop (Suc j) bs"
      "write_file dj ?nm (env_time ev) (png_of ev (bs ! j))" "pj @ [(save_dir, ?nm)]"]
  obtain extra where "fst (snd (save_loop ev save_dir start 0 bs d []))
      = (pj @ [(save_dir, ?nm)]) @ extra"
    by auto
  with lenj have "fst (snd (save_loop ev save_dir start 0 bs d [])) ! j = (save_dir, ?nm)"
    by (simp add: nth_append)
  with c taken free run1 runj show ?thesis
    by (intro exI [of _ ?c]) (simp add: nm [symmetric])
qed

lemma glob_names_mkdir: "glob_names (mkdir files r) save_dir ds = glob_names files save_dir ds"
  by (cases "files r") (auto simp: glob_names_def mkdir_def)

lemma get_next_file_number_mkdir:
  "get_next_file_number (mkdir files r) save_dir ds = get_next_file_number files save_dir ds"
  by (simp add: get_next_file_number_def glob_names_mkdir)

lemma auto_save_results_existing:
  assumes valid: "valid_results rs \<noteq> []"
    and dir: "target_dir s = BananaDir \<or> files (target_dir s) \<noteq> None"
  shows "auto_save_results s ev files rs =
     (files(target_dir s \<mapsto> listing files (target_dir s)
              @ map (saved_entry ev (get_next_file_number files (target_dir s) (date_str ev)))
                  (enumerate 0 (takeWhile (storable ev) (valid_results rs)))),
      if list_all (storable ev) (valid_results rs)
      then Saved (map (saved_path ev (target_dir s) (get_next_file_number files (target_dir s) (date_str ev)))
                    [0..<length (valid_results rs)])
      else SaveError)"
proof -
  let ?r = "target_dir s"
  let ?files1 = "if ?r = BananaDir then mkdir files BananaDir else files"
  let ?start = "get_next_file_number files ?r (date_str ev)"
  let ?d = "listing files ?r"
  from valid have rs: "rs \<noteq> []" by (auto simp: valid_results_def)
  have start: "get_next_file_number ?files1 ?r (date_str ev) = ?start"
    by (simp add: get_next_file_number_mkdir)
  have d: "?files1 ?r = Some ?d"
    using dir by (cases "files ?r") (auto simp: mkdir_def listing_def)
  have upd: "?files1(?r \<mapsto> x) = files(?r \<mapsto> x)" for x
    by (cases "files BananaDir") (auto simp: mkdir_def)
  from d have "\<forall>k\<ge>get_next_file_number ?files1 ?r (date_str ev). \<not> path_exists ?d (file_name (date_str ev) k)"
    using candidate_free [OF date_str_no_underscore] by blast
  then have "\<forall>k\<ge>?start + int 0. \<not> path_exists ?d (file_name (date_str ev) k)"
    by (simp add: start)
  from save_loop_fresh [OF this, of ?r "valid_results rs" "[]"]
  have loop: "save_loop ev ?r ?start 0 (valid_results rs) ?d [] =
     (?d @ map (saved_entry ev ?start) (enumerate 0 (takeWhile (storable ev) (valid_results rs))),
      map (saved_path ev ?r ?start) [0..<length (takeWhile (storable ev) (valid_results rs))],
      list_all (storable ev) (valid_results rs))"
    by simp
  have all: "list_all (storable ev) xs \<Longrightarrow> takeWhile (storable ev) xs = xs" for xs
    by (simp add: list_all_iff)
  have "auto_save_results s ev files rs =
      (case save_loop ev ?r ?start 0 (valid_results rs) ?d [] of
         (d', saved_files, ok) \<Rightarrow> (?files1(?r \<mapsto> d'), if ok then Saved saved_files else SaveError))"
    using rs valid d start
    by (simp add: auto_save_results_def Let_def del: fun_upd_apply split del: if_split)
  then show ?thesis
    unfolding loop by (auto simp: upd all simp del: fun_upd_apply)
qed

lemma auto_save_results_skipped:
  "valid_results rs = [] \<Longrightarrow> auto_save_results s ev files rs = (files, Skipped)"
  by (simp add: auto_save_results_def Let_def)

lemma auto_save_results_missing:
  assumes "valid_results rs \<noteq> []" "target_dir s \<noteq> BananaDir" "files (target_dir s) = None"
  shows "auto_save_results s ev files rs = (files, SaveError)"
proof -
  from assms(1) have "rs \<noteq> []" by (auto simp: valid_results_def)
  with assms show ?thesis
    by (simp add: auto_save_results_def Let_def)
qed

text \<open>
  C10 (amended). \<^verbatim>\<open>auto_save_results\<close> returns without touching the file system when the
  list is empty and when no blob is valid; the valid blobs are the blobs longer than 100
  bytes, in their original order. Otherwise, with \<open>start\<close> the next file number of the
  target directory, the blob at position \<open>i\<close> of the valid list is written under the
  number \<open>start + i\<close>, for every position before the first blob that the image library
  fails to open or to save (for all of them when there is none); that blob and the blobs
  after it get no number and are not saved, and nothing else in the file system changes.
  When the target is the folder of the original image and does not exist, nothing is
  saved.
\<close>

theorem auto_save_numbers_valid_blobs:
  "(rs = [] \<longrightarrow> auto_save_results s ev files rs = (files, Skipped))
   \<and> (valid_results rs = [] \<longrightarrow> auto_save_results s ev files rs = (files, Skipped))
   \<and> valid_results rs = filter (\<lambda>image_data. 100 < length image_data) rs
   \<and> (valid_results rs \<noteq> [] \<and> (target_dir s = BananaDir \<or> files (target_dir s) \<noteq> None) \<longrightarrow>
        auto_save_results s ev files rs =
          (files(target_dir s \<mapsto> listing files (target_dir s)
              @ map (saved_entry ev (get_next_file_number files (target_dir s) (date_str ev)))
                  (enumerate 0 (takeWhile (storable ev) (valid_results rs)))),
           if list_all (storable ev) (valid_results rs)
           then Saved (map (saved_path ev (target_dir s)
                              (get_next_file_number files (target_dir s) (date_str ev)))
                         [0..<length (valid_results rs)])
           else SaveError))
   \<and> (valid_results rs \<noteq> [] \<and> target_dir s \<noteq> BananaDir \<and> files (target_dir s) = None \<longrightarrow>
        auto_save_results s ev files rs = (files, SaveError))"
proof -
  have "valid_results [] = []" by (simp add: valid_results_def)
  moreover have "valid_results rs = filter (\<lambda>image_data. 100 < length image_data) rs"
    unfolding valid_results_def by (rule filter_cong) auto
  ultimately show ?thesis
    using auto_save_results_skipped [of rs s ev files] auto_save_results_existing [of rs s files ev]
      auto_save_results_missing [of rs s files ev]
    by auto
qed

theorem auto_save_numbers_valid_blobs_witness:
  "valid_results three_results = [blob 1, blob 2]
   \<and> target_dir new_editor = BananaDir
   \<and> get_next_file_number no_files BananaDir (date_str env0) = 1
   \<and> snd (auto_save_results new_editor env0 no_files three_results)
       = Saved [(BananaDir, ''banana_1sep_001.png''), (BananaDir, ''banana_1sep_002.png'')]
   \<and> fst (auto_save_results new_editor env0 no_files three_results) BananaDir
       = Some [\<lparr>e_name = ''banana_1sep_001.png'', st_mtime = 1000, e_data = blob 1\<rparr>,
               \<lparr>e_name = ''banana_1sep_002.png'', st_mtime = 1000, e_data = blob 2\<rparr>]
   \<and> valid_results [replicate 100 0] = []
   \<and> auto_save_results new_editor env0 numbered_files [replicate 100 0] = (numbered_files, Skipped)
   \<and> auto_save_results new_editor env0 numbered_files [] = (numbered_files, Skipped)
   \<and> target_dir full_session = ParentOf ''a.png'' \<and> no_files (target_dir full_session) = None
   \<and> auto_save_results full_session env0 no_files three_results = (no_files, SaveError)"
proof -
  have tf: "target_dir full_session = ParentOf ''a.png''"
    by (simp add: target_dir_def full_session_def new_editor_def)
  have nf: "no_files (target_dir full_session) = None" by (simp add: no_files_def)
  have v: "valid_results three_results = [blob 1, blob 2]"
    by (simp add: valid_results_def three_results_def blob_def)
  have t: "target_dir new_editor = BananaDir"
    by (simp add: target_dir_def new_editor_def)
  have n: "get_next_file_number no_files BananaDir (date_str env0) = 1"
    by (simp add: get_next_file_number_def glob_names_def no_files_def)
  have dec: "list_all (storable env0) [blob 1, blob 2]"
      "takeWhile (storable env0) [blob 1, blob 2] = [blob 1, blob 2]"
    by (simp_all add: env0_def storable_def)
  have l: "listing no_files BananaDir = []"
    by (simp add: listing_def no_files_def)
  have e: "map (saved_entry env0 1) (enumerate 0 [blob 1, blob 2])
      = [\<lparr>e_name = ''banana_1sep_001.png'', st_mtime = 1000, e_data = blob 1\<rparr>,
         \<lparr>e_name = ''banana_1sep_002.png'', st_mtime = 1000, e_data = blob 2\<rparr>]"
    by code_simp
  have p: "map (saved_path env0 BananaDir 1) [0..<length [blob 1, blob 2]]
      = [(BananaDir, ''banana_1sep_001.png''), (BananaDir, ''banana_1sep_002.png'')]"
    by code_simp
  have i: "valid_results [replicate 100 0] = []"
    by (simp add: valid_results_def)
  have ne: "valid_results three_results \<noteq> []
      \<and> (target_dir new_editor = BananaDir \<or> no_files (target_dir new_editor) \<noteq> None)"
    by (simp add: v t)
  from auto_save_numbers_valid_blobs [of three_results new_editor env0 no_files,
      THEN conjunct2, THEN conjunct2, THEN conjunct2, THEN conjunct1, THEN mp, OF ne]
  have "auto_save_results new_editor env0 no_files three_results =
      (no_files(BananaDir \<mapsto>
         [\<lparr>e_name = ''banana_1sep_001.png'', st_mtime = 1000, e_data = blob 1\<rparr>,
          \<lparr>e_name = ''banana_1sep_002.png'', st_mtime = 1000, e_data = blob 2\<rparr>]),
       Saved [(BananaDir, ''banana_1sep_001.png''), (BananaDir, ''banana_1sep_002.png'')])"
    unfolding v t n dec(2) l e p using dec(1) by simp
  moreover from auto_save_numbers_valid_blobs [of "[replicate 100 0]" new_editor env0 numbered_files] i
  have "auto_save_results new_editor env0 numbered_files [replicate 100 0] = (numbered_files, Skipped)"
    by simp
  moreover from auto_save_numbers_valid_blobs [of "[]" new_editor env0 numbered_files]
  have "auto_save_results new_editor env0 numbered_files [] = (numbered_files, Skipped)"
    by simp
  moreover have "valid_results three_results \<noteq> [] \<and> target_dir full_session \<noteq> BananaDir
      \<and> no_files (target_dir full_session) = None"
    using nf by (simp add: v tf)
  from auto_save_numbers_valid_blobs [of three_results full_session env0 no_files,
      THEN conjunct2, THEN conjunct2, THEN conjunct2, THEN conjunct2, THEN mp, OF this]
  have "auto_save_results full_session env0 no_files three_results = (no_files, SaveError)" .
  ultimately show ?thesis using v t n i tf nf by simp
qed


text \<open>
  C10 as stated fails. Of three valid blobs the second is one the image library cannot
  open: the first is saved under number 1, the loop is left, and the third valid blob is
  neither numbered nor saved.
\<close>

theorem auto_save_stops_counterexample:
  "valid_results junk_between = [blob 1, junk, blob 2]
   \<and> decodable picky_env (blob 1) \<and> \<not> decodable picky_env junk \<and> decodable picky_env (blob 2)
   \<and> snd (auto_save_results new_editor picky_env no_files junk_between) = SaveError
   \<and> fst (auto_save_results new_editor picky_env no_files junk_between) BananaDir
       = Some [\<lparr>e_name = ''banana_1sep_001.png'', st_mtime = 1000, e_data = blob 1\<rparr>]"
  by code_simp

text \<open>
  C5 (amended). For each artifact the collision loop starts at its candidate number and
  moves on while the candidate path exists, at most 1000 times: the name it ends with is
  the candidate plus some \<open>c \<le> 1000\<close>, every earlier candidate exists, and for
  \<open>c < 1000\<close> the name is free. In the save loop the blob at position \<open>j\<close> has the
  candidate \<open>start + j\<close>, for one \<open>start\<close>, and is saved under the name this loop ends
  with in the directory as the blobs before it left it. Naming refuses no artifact and
  signals nothing: the loop saves every blob before the first that the image library
  fails to open or to save, and reports success exactly when there is no such blob.
  Inside \<^verbatim>\<open>auto_save_results\<close>, where \<open>start\<close> is the one snapshot of
  \<^verbatim>\<open>get_next_file_number\<close> and nothing else writes to the directory, no increment
  happens and the blob at position \<open>j\<close> is saved under \<open>start + j\<close>.
\<close>

theorem allocation_retries_capped:
  "(\<exists>c\<le>1000. allocate d ds base = file_name ds (base + int c)
        \<and> (\<forall>k<c. path_exists d (file_name ds (base + int k)))
        \<and> (c < 1000 \<longrightarrow> \<not> path_exists d (allocate d ds base)))
   \<and> snd (snd (save_loop ev save_dir start 0 bs d [])) = list_all (storable ev) bs
   \<and> length (fst (snd (save_loop ev save_dir start 0 bs d []))) = length (takeWhile (storable ev) bs)
   \<and> (\<forall>j<length (takeWhile (storable ev) bs). \<exists>c\<le>1000.
           fst (snd (save_loop ev save_dir start 0 bs d [])) ! j
             = (save_dir, file_name (date_str ev) (start + int j + int c))
         \<and> (\<forall>k<c. path_exists (fst (save_loop ev save_dir start 0 (take j bs) d []))
                     (file_name (date_str ev) (start + int j + int k)))
         \<and> (c < 1000 \<longrightarrow>
              \<not> path_exists (fst (save_loop ev save_dir start 0 (take j bs) d []))
                  (file_name (date_str ev) (start + int j + int c)))
         \<and> fst (save_loop ev save_dir start 0 (take (Suc j) bs) d [])
             = write_file (fst (save_loop ev save_dir start 0 (take j bs) d []))
                 (file_name (date_str ev) (start + int j + int c)) (env_time ev)
                 (png_of ev (bs ! j)))
   \<and> (valid_results rs \<noteq> [] \<and> (target_dir s = BananaDir \<or> files (target_dir s) \<noteq> None) \<longrightarrow>
        fst (auto_save_results s ev files rs) (target_dir s) =
          Some (listing files (target_dir s)
              @ map (saved_entry ev (get_next_file_number files (target_dir s) (date_str ev)))
                  (enumerate 0 (takeWhile (storable ev) (valid_results rs)))))"
proof -
  let ?c = "free_counter d ds base 0"
  from free_counter_bounds [of 0 d ds base]
  have "?c \<le> 1000" and "\<forall>k<?c. path_exists d (file_name ds (base + int k))"
    and "?c < 1000 \<longrightarrow> \<not> path_exists d (file_name ds (base + int ?c))"
    by simp_all
  then have one: "\<exists>c\<le>1000. allocate d ds base = file_name ds (base + int c)
        \<and> (\<forall>k<c. path_exists d (file_name ds (base + int k)))
        \<and> (c < 1000 \<longrightarrow> \<not> path_exists d (allocate d ds base))"
    by (intro exI [of _ ?c]) (simp add: allocate_def)
  from save_loop_extends [of ev save_dir start 0 bs d "[]"]
  have flag: "snd (snd (save_loop ev save_dir start 0 bs d [])) = list_all (storable ev) bs"
    and len: "length (fst (snd (save_loop ev save_dir start 0 bs d [])))
        = length (takeWhile (storable ev) bs)"
    by auto
  have seq: "fst (auto_save_results s ev files rs) (target_dir s) =
          Some (listing files (target_dir s)
              @ map (saved_entry ev (get_next_file_number files (target_dir s) (date_str ev)))
                  (enumerate 0 (takeWhile (storable ev) (valid_results rs))))"
    if "valid_results rs \<noteq> []" "target_dir s = BananaDir \<or> files (target_dir s) \<noteq> None"
    using auto_save_results_existing [of rs s files ev] that by simp
  from one flag len save_loop_position [of _ ev bs save_dir start d] seq
  show ?thesis by blast
qed

lemma free_counter_exhausted:
  assumes "\<forall>k\<le>1000. path_exists d (file_name ds (base + int k))"
  shows "free_counter d ds base 0 = 1000"
proof -
  from free_counter_bounds [of 0 d ds base]
  have "free_counter d ds base 0 \<le> 1000"
    and "free_counter d ds base 0 < 1000 \<longrightarrow>
         \<not> path_exists d (file_name ds (base + int (free_counter d ds base 0)))"
    by simp_all
  with assms show ?thesis by (metis le_neq_implies_less)
qed

lemma full_dir_occupied: "k \<le> 1000 \<Longrightarrow> path_exists full_dir (file_name ''1sep'' (1 + int k))"
proof -
  assume "k \<le> 1000"
  then have "Suc k \<in> set [1..<1002]" by simp
  then have "e_name (numbered_entry (Suc k)) \<in> set (map e_name full_dir)"
    unfolding full_dir_def by (metis (no_types, lifting) image_eqI list.set_map)
  then show ?thesis by (simp add: path_exists_def numbered_entry_def add.commute)
qed

lemma length_write_file_existing: "path_exists d nm \<Longrightarrow> length (write_file d nm t b) = length d"
  by (simp add: write_file_def)

text \<open>
  C5 as stated fails. In a directory where the candidates 1 to 1001 all exist, the loop
  for the candidate 1 ends after its 1000 increments at the existing name of number 1001;
  the save loop signals nothing, reports the artifact as saved under that name, and the
  directory has as many files as before.
\<close>

theorem naming_exhausted_counterexample:
  "date_str env0 = ''1sep''
   \<and> path_exists full_dir (file_name ''1sep'' 1001)
   \<and> allocate full_dir ''1sep'' 1 = file_name ''1sep'' 1001
   \<and> file_name ''1sep'' 1001 = ''banana_1sep_1001.png''
   \<and> snd (save_loop env0 BananaDir 1 0 [blob 7] full_dir [])
       = ([(BananaDir, ''banana_1sep_1001.png'')], True)
   \<and> length (fst (save_loop env0 BananaDir 1 0 [blob 7] full_dir [])) = length full_dir"
proof -
  have ds: "date_str env0 = ''1sep''" by code_simp
  have ex: "path_exists full_dir (file_name ''1sep'' 1001)"
    using full_dir_occupied [of 1000] by simp
  have "free_counter full_dir ''1sep'' 1 0 = 1000"
    by (rule free_counter_exhausted) (simp add: full_dir_occupied)
  then have al: "allocate full_dir ''1sep'' 1 = file_name ''1sep'' 1001"
    by (simp add: allocate_def)
  have nm: "file_name ''1sep'' 1001 = ''banana_1sep_1001.png''" by code_simp
  have dc: "decodable env0 (blob 7)" "savable env0 (blob 7)" by (simp_all add: env0_def)
  have run: "save_loop env0 BananaDir 1 0 [blob 7] full_dir []
      = (write_file full_dir (file_name ''1sep'' 1001) (env_time env0) (png_of env0 (blob 7)),
         [(BananaDir, file_name ''1sep'' 1001)], True)"
    using dc by (simp add: ds al Let_def)
  show ?thesis
    unfolding run using ds ex al nm by (simp add: length_write_file_existing)
qed

theorem allocation_retries_capped_witness:
  "allocate recent_dir ''1sep'' 1 = ''banana_1sep_003.png''
   \<and> path_exists recent_dir (file_name ''1sep'' 1) \<and> path_exists recent_dir (file_name ''1sep'' 2)
   \<and> (\<exists>c\<le>1000. allocate recent_dir ''1sep'' 1 = file_name ''1sep'' (1 + int c)
         \<and> (\<forall>k<c. path_exists recent_dir (file_name ''1sep'' (1 + int k)))
         \<and> \<not> path_exists recent_dir (allocate recent_dir ''1sep'' 1))
   \<and> snd (save_loop env0 BananaDir 1 0 [blob 3, blob 4] recent_dir [])
       = ([(BananaDir, ''banana_1sep_003.png''), (BananaDir, ''banana_1sep_004.png'')], True)
   \<and> 1 < length (takeWhile (storable env0) [blob 3, blob 4])
   \<and> (\<exists>c\<le>1000.
           fst (snd (save_loop env0 BananaDir 1 0 [blob 3, blob 4] recent_dir [])) ! 1
             = (BananaDir, file_name (date_str env0) (1 + int 1 + int c))
         \<and> (\<forall>k<c. path_exists (fst (save_loop env0 BananaDir 1 0 (take 1 [blob 3, blob 4]) recent_dir []))
                     (file_name (date_str env0) (1 + int 1 + int k)))
         \<and> (c < 1000 \<longrightarrow>
              \<not> path_exists (fst (save_loop env0 BananaDir 1 0 (take 1 [blob 3, blob 4]) recent_dir []))
                  (file_name (date_str env0) (1 + int 1 + int c))))
   \<and> map e_name (fst (save_loop env0 BananaDir 1 0 (take 1 [blob 3, blob 4]) recent_dir []))
       = [''banana_1sep_001.png'', ''banana_1sep_002.png'', ''banana_1sep_003.png'']
   \<and> get_next_file_number banana_files BananaDir (date_str env0) = 3
   \<and> fst (auto_save_results new_editor env0 banana_files [blob 3, blob 4]) BananaDir
       = Some (recent_dir @
           [\<lparr>e_name = ''banana_1sep_003.png'', st_mtime = 1000, e_data = blob 3\<rparr>,
            \<lparr>e_name = ''banana_1sep_004.png'', st_mtime = 1000, e_data = blob 4\<rparr>])"
proof -
  have a: "allocate recent_dir ''1sep'' 1 = ''banana_1sep_003.png''" by code_simp
  have e: "path_exists recent_dir (file_name ''1sep'' 1)" "path_exists recent_dir (file_name ''1sep'' 2)"
      "\<not> path_exists recent_dir ''banana_1sep_003.png''"
    by code_simp+
  have st: "takeWhile (storable env0) [blob 3, blob 4] = [blob 3, blob 4]"
    by (simp add: storable_def env0_def)
  have h1: "1 < length (takeWhile (storable env0) [blob 3, blob 4])"
    unfolding st by simp
  have v: "valid_results [blob 3, blob 4] = [blob 3, blob 4]"
    by (simp add: valid_results_def blob_def)
  have t: "target_dir new_editor = BananaDir" by (simp add: target_dir_def new_editor_def)
  have h3: "valid_results [blob 3, blob 4] \<noteq> []
      \<and> (target_dir new_editor = BananaDir \<or> banana_files (target_dir new_editor) \<noteq> None)"
    by (simp add: v t)
  have n: "get_next_file_number banana_files BananaDir (date_str env0) = 3" by code_simp
  have li: "listing banana_files BananaDir = recent_dir"
    by (simp add: listing_def banana_files_def)
  have en: "map (saved_entry env0 3) (enumerate 0 [blob 3, blob 4])
      = [\<lparr>e_name = ''banana_1sep_003.png'', st_mtime = 1000, e_data = blob 3\<rparr>,
         \<lparr>e_name = ''banana_1sep_004.png'', st_mtime = 1000, e_data = blob 4\<rparr>]"
    by code_simp
  have l: "snd (save_loop env0 BananaDir 1 0 [blob 3, blob 4] recent_dir [])
       = ([(BananaDir, ''banana_1sep_003.png''), (BananaDir, ''banana_1sep_004.png'')], True)"
    by code_simp
  have m: "map e_name (fst (save_loop env0 BananaDir 1 0 (take 1 [blob 3, blob 4]) recent_dir []))
       = [''banana_1sep_001.png'', ''banana_1sep_002.png'', ''banana_1sep_003.png'']"
    by code_simp
  note T = allocation_retries_capped [where d = recent_dir and ds = "''1sep''" and base = 1
      and ev = env0 and bs = "[blob 3, blob 4]" and save_dir = BananaDir and start = 1
      and rs = "[blob 3, blob 4]" and s = new_editor and files = banana_files]
  from T have "\<exists>c\<le>1000. allocate recent_dir ''1sep'' 1 = file_name ''1sep'' (1 + int c)
         \<and> (\<forall>k<c. path_exists recent_dir (file_name ''1sep'' (1 + int k)))
         \<and> (c < 1000 \<longrightarrow> \<not> path_exists recent_dir (allocate recent_dir ''1sep'' 1))"
    by (rule conjunct1)
  with a e(3) have A: "\<exists>c\<le>1000. allocate recent_dir ''1sep'' 1 = file_name ''1sep'' (1 + int c)
         \<and> (\<forall>k<c. path_exists recent_dir (file_name ''1sep'' (1 + int k)))
         \<and> \<not> path_exists recent_dir (allocate recent_dir ''1sep'' 1)"
    by auto
  from T [THEN conjunct2, THEN conjunct2, THEN conjunct2, THEN conjunct1, rule_format, OF h1]
  have B: "\<exists>c\<le>1000.
           fst (snd (save_loop env0 BananaDir 1 0 [blob 3, blob 4] recent_dir [])) ! 1
             = (BananaDir, file_name (date_str env0) (1 + int 1 + int c))
         \<and> (\<forall>k<c. path_exists (fst (save_loop env0 BananaDir 1 0 (take 1 [blob 3, blob 4]) recent_dir []))
                     (file_name (date_str env0) (1 + int 1 + int k)))
         \<and> (c < 1000 \<longrightarrow>
              \<not> path_exists (fst (save_loop env0 BananaDir 1 0 (take 1 [blob 3, blob 4]) recent_dir []))
                  (file_name (date_str env0) (1 + int 1 + int c)))"
    by blast
  from T [THEN conjunct2, THEN conjunct2, THEN conjunct2, THEN conjunct2, THEN mp, OF h3]
  have C: "fst (auto_save_results new_editor env0 banana_files [blob 3, blob 4]) BananaDir
       = Some (recent_dir @
           [\<lparr>e_name = ''banana_1sep_003.png'', st_mtime = 1000, e_data = blob 3\<rparr>,
            \<lparr>e_name = ''banana_1sep_004.png'', st_mtime = 1000, e_data = blob 4\<rparr>])"
    unfolding t n v st li en .
  from a e(1,2) A l h1 B m n C show ?thesis by blast
qed

end
